theory Spec2Isabelle
  imports Main "HOL-Library.AList" "HOL-Library.Sublist"
begin

section \<open>Data model\<close>

text \<open>
  A shallow embedding of the workflow executor (class \<open>TaskExecutor\<close>), of the record
  store client (class \<open>ApiClient\<close>) and of the scheduler's tick (class
  \<open>DatabaseMonitor\<close>). JavaScript strings are \<open>string\<close>s (one \<open>char\<close> per code
  unit), times are milliseconds as \<open>int\<close>, a JavaScript \<open>Map\<close> is an association list
  in insertion order: \<open>Map.set\<close> is \<open>AList.update\<close> (overwrite in place, or append),
  \<open>Map.delete\<close> is \<open>AList.delete\<close>, \<open>Map.get\<close> is \<open>map_of\<close>.

  An \<open>async\<close> method is a function from the state before the call to its result and
  the state after it: a call runs to its end with no other callback in between, and what
  other actors do meanwhile shows only in the world. Calls of the logger have no effect
  and are left out.
\<close>

text \<open>A record fetched from the store. \<open>numero_cte\<close> is \<open>None\<close> for \<open>null\<close>.\<close>

record cte_record =
  rec_id :: nat
  numero_cte :: "string option"
  rec_status :: string

text \<open>The \<open>config\<close> object, restricted to the keys the executor reads.\<close>

record config =
  retryAttempts :: nat
  retryDelay :: int
  sourceFolder :: string
  cnpjBasePath :: string
  processedFolder :: string
  checkProcessedInterval :: int
  processingTimeout :: int

definition default_config :: config where
  "default_config =
     \<lparr> retryAttempts = 3, retryDelay = 2000,
       sourceFolder = ''./xml/gerados'', cnpjBasePath = ''./xml/cnpj'',
       processedFolder = ''processados'', checkProcessedInterval = 30000,
       processingTimeout = 600000 \<rparr>"

text \<open>
  Every \<open>throw\<close> of the source is a value of \<open>error\<close>. \<open>IOError\<close> stands for a
  rejection of a file system call, \<open>TypeError\<close> for a property read on \<open>undefined\<close>.
\<close>

datatype error =
    CnpjNotExtracted "string option"
  | XmlNotFound string
  | IOError string
  | TypeError
  | FetchRejected
  | HttpError nat
  | JsonError
  | ConnectionError

datatype request = GetStats | PostSetup | GetPendentes | PutStatus nat

datatype body = Records "cte_record list" | Object "bool option"

text \<open>A response of \<open>fetch\<close>; \<open>json\<close> is \<open>None\<close> when \<open>response.json()\<close> rejects.\<close>

datatype response = Response (ok: bool) (status: nat) (json: "body option")

text \<open>
  The platform the code runs on (Node's \<open>fs\<close>, \<open>path\<close>, \<open>Date\<close>, \<open>setTimeout\<close> and
  \<open>fetch\<close>) is not part of the repository: it is a parameter, a record of operations
  over a world \<open>'w\<close> of which nothing is assumed. \<open>sleep\<close> is the world after a
  \<open>setTimeout\<close> delay, so other actors may change it meanwhile.
\<close>

record 'w env =
  pathJoin :: "string list \<Rightarrow> string"
  access :: "'w \<Rightarrow> string \<Rightarrow> bool"
  mkdir :: "string \<Rightarrow> 'w \<Rightarrow> error option \<times> 'w"
  rename :: "string \<Rightarrow> string \<Rightarrow> 'w \<Rightarrow> error option \<times> 'w"
  readFile :: "'w \<Rightarrow> string \<Rightarrow> error + string"
  dateNow :: "'w \<Rightarrow> int"
  sleep :: "int \<Rightarrow> 'w \<Rightarrow> 'w"
  fetch :: "request \<Rightarrow> 'w \<Rightarrow> response option \<times> 'w"

text \<open>
  The calls the claims count are recorded in a trace, appended to where the source makes
  the call.
\<close>

datatype event =
    EvExecuteTask nat
  | EvDelay int
  | EvMkdir string
  | EvRename string string
  | EvMarkAsProcessed nat
  | EvProcessRecord nat
  | EvTaskResult nat bool

record running_task =
  task_recordId :: nat
  task_startTime :: int

text \<open>A Watch Entry: the value \<open>waitForProcessedFile\<close> stores in \<open>processingFiles\<close>.\<close>

record file_info =
  recordId :: nat
  numeroCtE :: "string option"
  cnpj :: string
  processedPath :: string
  startTime :: int

record task_result =
  success :: bool
  res_recordId :: nat
  res_error :: "error option"

text \<open>The one \<open>ApiClient\<close> object of the application.\<close>

datatype api_client = ApiClient

text \<open>
  The state: the world, the trace, the active \<open>setInterval\<close> timers (handle and
  period), the fields of the \<open>TaskExecutor\<close> (\<open>runningTasks\<close>, \<open>processingFiles\<close>,
  \<open>processedFileInterval\<close>, \<open>retryCounters\<close>, \<open>apiClient\<close>), the client's
  \<open>isConnected\<close> and the monitor's \<open>lastCheck\<close> and \<open>processedCount\<close>. A property
  that is \<open>undefined\<close> or \<open>null\<close> is \<open>None\<close>; \<open>retryCounters\<close>, created on first
  use, is the empty map until then. The retry key \<open>retry_<id>\<close> is the id, the task id
  \<open>task_<id>_<now>\<close> the pair.
\<close>

record 'w state =
  world :: 'w
  trace :: "event list"
  intervals :: "(nat \<times> int) list"
  nextHandle :: nat
  runningTasks :: "((nat \<times> int) \<times> running_task) list"
  processingFiles :: "(nat \<times> file_info) list"
  processedFileInterval :: "nat option"
  retryCounters :: "(nat \<times> nat) list"
  apiClient :: "api_client option"
  isConnected :: bool
  lastCheck :: "int option"
  processedCount :: nat

section \<open>Platform calls\<close>

text \<open>
  \<open>setInterval\<close> answers a new handle and adds the timer to the active ones;
  \<open>clearInterval\<close> removes it. A handle is a \<open>Timeout\<close> object, so it is truthy
  whatever its number here. The file system calls and \<open>fetch\<close> pass to the platform,
  the file system calls leaving an event in the trace.
\<close>

definition setInterval :: "int \<Rightarrow> 'w state \<Rightarrow> nat \<times> 'w state" where
  "setInterval ms s =
     (nextHandle s,
      s\<lparr>intervals := intervals s @ [(nextHandle s, ms)], nextHandle := Suc (nextHandle s)\<rparr>)"

definition clearInterval :: "nat \<Rightarrow> 'w state \<Rightarrow> 'w state" where
  "clearInterval h s = s\<lparr>intervals := filter (\<lambda>(h', ms). h' \<noteq> h) (intervals s)\<rparr>"

definition fs_mkdir :: "'w env \<Rightarrow> string \<Rightarrow> 'w state \<Rightarrow> error option \<times> 'w state" where
  "fs_mkdir env dir s =
     (case mkdir env dir (world s) of
        (r, w) \<Rightarrow> (r, s\<lparr>world := w, trace := trace s @ [EvMkdir dir]\<rparr>))"

definition fs_rename ::
  "'w env \<Rightarrow> string \<Rightarrow> string \<Rightarrow> 'w state \<Rightarrow> error option \<times> 'w state" where
  "fs_rename env src dst s =
     (case rename env src dst (world s) of
        (r, w) \<Rightarrow> (r, s\<lparr>world := w, trace := trace s @ [EvRename src dst]\<rparr>))"

definition do_fetch :: "'w env \<Rightarrow> request \<Rightarrow> 'w state \<Rightarrow> response option \<times> 'w state" where
  "do_fetch env req s = (case fetch env req (world s) of (r, w) \<Rightarrow> (r, s\<lparr>world := w\<rparr>))"

text \<open>\<open>delay(ms)\<close>: a promise resolved by \<open>setTimeout\<close>.\<close>

definition delay :: "'w env \<Rightarrow> int \<Rightarrow> 'w state \<Rightarrow> 'w state" where
  "delay env ms s = s\<lparr>world := sleep env ms (world s), trace := trace s @ [EvDelay ms]\<rparr>"

text \<open>\<open>String.prototype.substring\<close> for \<open>a \<le> b\<close>, and \<open>includes\<close>.\<close>

definition substring :: "string \<Rightarrow> nat \<Rightarrow> nat \<Rightarrow> string" where
  "substring str a b = take (b - a) (drop a str)"

definition str_includes :: "string \<Rightarrow> string \<Rightarrow> bool" where
  "str_includes str pat = sublist pat str"

text \<open>The anchored regular expression for exactly fourteen digits \<open>0\<close> to \<open>9\<close>.\<close>

definition is_digit :: "char \<Rightarrow> bool" where
  "is_digit c = (c \<in> set ''0123456789'')"

definition fourteen_digits :: "string \<Rightarrow> bool" where
  "fourteen_digits str = (length str = 14 \<and> list_all is_digit str)"

text \<open>A template literal \<open>${x}\<close> of a string or of \<open>null\<close>.\<close>

definition template :: "string option \<Rightarrow> string" where
  "template x = (case x of None \<Rightarrow> ''null'' | Some str \<Rightarrow> str)"

section \<open>Record store client\<close>

text \<open>\<open>ApiClient.markAsProcessed\<close>: every failure is logged and thrown again.\<close>

definition markAsProcessed ::
  "'w env \<Rightarrow> nat \<Rightarrow> 'w state \<Rightarrow> (error + bool option) \<times> 'w state" where
  "markAsProcessed env i s =
     (case do_fetch env (PutStatus i) (s\<lparr>trace := trace s @ [EvMarkAsProcessed i]\<rparr>) of
        (None, s1) \<Rightarrow> (Inl FetchRejected, s1)
      | (Some resp, s1) \<Rightarrow>
          if \<not> ok resp then (Inl (HttpError (status resp)), s1)
          else (case json resp of
                  None \<Rightarrow> (Inl JsonError, s1)
                | Some (Object b) \<Rightarrow> (Inr b, s1)
                | Some (Records rs) \<Rightarrow> (Inr None, s1)))"

definition testConnection :: "'w env \<Rightarrow> 'w state \<Rightarrow> bool \<times> 'w state" where
  "testConnection env s =
     (case do_fetch env GetStats s of
        (None, s1) \<Rightarrow> (False, s1)
      | (Some resp, s1) \<Rightarrow>
          if \<not> ok resp then (False, s1) else (json resp \<noteq> None, s1))"

text \<open>\<open>setupTable\<close> catches whatever its request throws.\<close>

definition setupTable :: "'w env \<Rightarrow> 'w state \<Rightarrow> 'w state" where
  "setupTable env s = snd (do_fetch env PostSetup s)"

definition connect :: "'w env \<Rightarrow> 'w state \<Rightarrow> error option \<times> 'w state" where
  "connect env s =
     (case testConnection env s of
        (True, s1) \<Rightarrow> (None, setupTable env (s1\<lparr>isConnected := True\<rparr>))
      | (False, s1) \<Rightarrow> (Some ConnectionError, s1\<lparr>isConnected := False\<rparr>))"

text \<open>
  \<open>getRecordsToProcess\<close>. A body that is an object and not an array has no \<open>length\<close>,
  so the caller's \<open>records.length > 0\<close> is false as for the empty array.
\<close>

definition getRecordsToProcess ::
  "'w env \<Rightarrow> 'w state \<Rightarrow> (error + cte_record list) \<times> 'w state" where
  "getRecordsToProcess env s =
     (case (if \<not> isConnected s then connect env s else (None, s)) of
        (Some e, s1) \<Rightarrow> (Inl e, s1)
      | (None, s1) \<Rightarrow>
          (case do_fetch env GetPendentes s1 of
             (None, s2) \<Rightarrow> (Inl FetchRejected, s2)
           | (Some resp, s2) \<Rightarrow>
               if \<not> ok resp then (Inl (HttpError (status resp)), s2)
               else (case json resp of
                       None \<Rightarrow> (Inl JsonError, s2)
                     | Some (Records rs) \<Rightarrow> (Inr rs, s2)
                     | Some (Object b) \<Rightarrow> (Inr [], s2))))"

section \<open>Workflow executor\<close>

text \<open>\<open>setupDirectories\<close>: one \<open>try\<close> around the loop, so the first failure ends it.\<close>

definition setupDirectories :: "'w env \<Rightarrow> config \<Rightarrow> 'w state \<Rightarrow> 'w state" where
  "setupDirectories env cfg s =
     (case fs_mkdir env (sourceFolder cfg) s of
        (Some e, s1) \<Rightarrow> s1
      | (None, s1) \<Rightarrow> snd (fs_mkdir env (cnpjBasePath cfg) s1))"

text \<open>
  The constructor. It sets \<open>runningTasks\<close> and \<open>processingFiles\<close> and nothing else:
  \<open>processedFileInterval\<close>, \<open>retryCounters\<close> and \<open>apiClient\<close> are \<open>undefined\<close>.
\<close>

definition TaskExecutor_new :: "'w env \<Rightarrow> config \<Rightarrow> 'w \<Rightarrow> 'w state" where
  "TaskExecutor_new env cfg w =
     setupDirectories env cfg
       \<lparr> world = w, trace = [], intervals = [], nextHandle = 0,
         runningTasks = [], processingFiles = [], processedFileInterval = None,
         retryCounters = [], apiClient = None,
         isConnected = False, lastCheck = None, processedCount = 0 \<rparr>"

definition extractCNPJFromChaveAcesso :: "string option \<Rightarrow> string option" where
  "extractCNPJFromChaveAcesso chaveAcesso =
     (case chaveAcesso of
        None \<Rightarrow> None
      | Some key \<Rightarrow>
          if key = [] \<or> length key \<noteq> 44 then None
          else if \<not> fourteen_digits (substring key 6 20) then None
          else Some (substring key 6 20))"

definition fileExists :: "'w env \<Rightarrow> string \<Rightarrow> 'w state \<Rightarrow> bool" where
  "fileExists env filePath s = access env (world s) filePath"

definition moveExistingXMLToCNPJFolder ::
  "'w env \<Rightarrow> config \<Rightarrow> cte_record \<Rightarrow> string \<Rightarrow> 'w state \<Rightarrow> (error + string) \<times> 'w state" where
  "moveExistingXMLToCNPJFolder env cfg record cnpj' s =
     (let fileName = template (numero_cte record) @ ''.xml'';
          sourcePath = pathJoin env [sourceFolder cfg, fileName]
      in if \<not> fileExists env sourcePath s then (Inl (XmlNotFound sourcePath), s)
         else
           let cnpjFolder = pathJoin env [cnpjBasePath cfg, cnpj'];
               targetPath = pathJoin env [cnpjFolder, fileName]
           in (case fs_mkdir env cnpjFolder s of
                 (Some e, s1) \<Rightarrow> (Inl e, s1)
               | (None, s1) \<Rightarrow>
                   (case fs_mkdir env (pathJoin env [cnpjFolder, processedFolder cfg]) s1 of
                      (Some e, s2) \<Rightarrow> (Inl e, s2)
                    | (None, s2) \<Rightarrow>
                        (case fs_rename env sourcePath targetPath s2 of
                           (Some e, s3) \<Rightarrow> (Inl e, s3)
                         | (None, s3) \<Rightarrow> (Inr targetPath, s3)))))"

definition startProcessedFileMonitoring :: "config \<Rightarrow> 'w state \<Rightarrow> 'w state" where
  "startProcessedFileMonitoring cfg s =
     (case processedFileInterval s of
        Some h \<Rightarrow> s
      | None \<Rightarrow>
          (case setInterval (checkProcessedInterval cfg) s of
             (h, s1) \<Rightarrow> s1\<lparr>processedFileInterval := Some h\<rparr>))"

definition stopProcessedFileMonitoring :: "'w state \<Rightarrow> 'w state" where
  "stopProcessedFileMonitoring s =
     (case processedFileInterval s of
        Some h \<Rightarrow> (clearInterval h s)\<lparr>processedFileInterval := None\<rparr>
      | None \<Rightarrow> s)"

definition waitForProcessedFile ::
  "'w env \<Rightarrow> config \<Rightarrow> cte_record \<Rightarrow> string \<Rightarrow> 'w state \<Rightarrow> 'w state" where
  "waitForProcessedFile env cfg record cnpj' s =
     (let fileName = template (numero_cte record) @ ''.xml'';
          processedPath' =
            pathJoin env [cnpjBasePath cfg, cnpj', processedFolder cfg, fileName]
      in startProcessedFileMonitoring cfg
           (s\<lparr>processingFiles :=
                AList.update (rec_id record)
                  \<lparr> recordId = rec_id record, numeroCtE = numero_cte record,
                    cnpj = cnpj', processedPath = processedPath',
                    startTime = dateNow env (world s) \<rparr>
                  (processingFiles s)\<rparr>))"

definition handlePendingDocument ::
  "'w env \<Rightarrow> config \<Rightarrow> cte_record \<Rightarrow> string \<Rightarrow> 'w state \<Rightarrow> error option \<times> 'w state" where
  "handlePendingDocument env cfg record cnpj' s =
     (case moveExistingXMLToCNPJFolder env cfg record cnpj' s of
        (Inl e, s1) \<Rightarrow> (Some e, s1)
      | (Inr targetPath, s1) \<Rightarrow> (None, waitForProcessedFile env cfg record cnpj' s1))"

definition processRecord ::
  "'w env \<Rightarrow> config \<Rightarrow> cte_record \<Rightarrow> 'w state \<Rightarrow> error option \<times> 'w state" where
  "processRecord env cfg record s =
     (case extractCNPJFromChaveAcesso (numero_cte record) of
        None \<Rightarrow> (Some (CnpjNotExtracted (numero_cte record)), s)
      | Some cnpj' \<Rightarrow>
          if rec_status record = ''pendente'' then handlePendingDocument env cfg record cnpj' s
          else (None, s))"

definition executeSpecificTasks :: "cte_record \<Rightarrow> 'w state \<Rightarrow> error option \<times> 'w state" where
  "executeSpecificTasks record s = (None, s)"

text \<open>\<open>checkIfAuthorized\<close>: a failed read is logged and answered \<open>false\<close>.\<close>

definition checkIfAuthorized :: "'w env \<Rightarrow> string \<Rightarrow> 'w state \<Rightarrow> bool" where
  "checkIfAuthorized env filePath s =
     (case readFile env (world s) filePath of
        Inl e \<Rightarrow> False
      | Inr content \<Rightarrow>
          str_includes content ''<cStat>100</cStat>'' \<or> str_includes content ''autorizado''
          \<or> str_includes content ''Autorizado'')"

text \<open>
  \<open>markCTEAsEmitted\<close> calls \<open>this.apiClient.markAsProcessed\<close>; with \<open>this.apiClient\<close>
  undefined the property read throws. Either way the error is logged and thrown again.
\<close>

definition markCTEAsEmitted :: "'w env \<Rightarrow> nat \<Rightarrow> 'w state \<Rightarrow> error option \<times> 'w state" where
  "markCTEAsEmitted env recordId' s =
     (case apiClient s of
        None \<Rightarrow> (Some TypeError, s)
      | Some client \<Rightarrow>
          (case markAsProcessed env recordId' s of
             (Inl e, s1) \<Rightarrow> (Some e, s1)
           | (Inr r, s1) \<Rightarrow> (None, s1)))"

text \<open>
  The loop of \<open>checkProcessedFiles\<close> over the entries of \<open>processingFiles\<close>. The body
  deletes no entry but the current one, so the entries visited are those the map held
  when the loop began. The \<open>catch\<close> of the body logs and goes on with the next entry.
\<close>

fun checkEntries ::
  "'w env \<Rightarrow> config \<Rightarrow> (nat \<times> file_info) list \<Rightarrow> 'w state \<Rightarrow> 'w state" where
  "checkEntries env cfg [] s = s"
| "checkEntries env cfg ((recordId', fileInfo) # rest) s =
     checkEntries env cfg rest
       (if fileExists env (processedPath fileInfo) s then
          (if checkIfAuthorized env (processedPath fileInfo) s then
             (case markCTEAsEmitted env recordId' s of
                (Some e, s1) \<Rightarrow> s1
              | (None, s1) \<Rightarrow>
                  s1\<lparr>processingFiles := AList.delete recordId' (processingFiles s1)\<rparr>)
           else s)
        else
          (if dateNow env (world s) - startTime fileInfo > processingTimeout cfg then
             s\<lparr>processingFiles := AList.delete recordId' (processingFiles s)\<rparr>
           else s))"

definition checkProcessedFiles :: "'w env \<Rightarrow> config \<Rightarrow> 'w state \<Rightarrow> 'w state" where
  "checkProcessedFiles env cfg s =
     (if length (processingFiles s) = 0 then s
      else checkEntries env cfg (processingFiles s) s)"

definition cleanup :: "'w state \<Rightarrow> 'w state" where
  "cleanup s = (stopProcessedFileMonitoring s)\<lparr>processingFiles := [], runningTasks := []\<rparr>"

text \<open>
  \<open>executeTask\<close> and \<open>handleTaskFailure\<close> call each other. The \<open>catch\<close> of
  \<open>executeTask\<close> takes every error of the \<open>try\<close> block to \<open>handleTaskFailure\<close>,
  which reads \<open>retryCounters.get(retryKey) || 0\<close>.
\<close>

function executeTask ::
    "'w env \<Rightarrow> config \<Rightarrow> cte_record \<Rightarrow> 'w state \<Rightarrow> task_result \<times> 'w state"
  and handleTaskFailure ::
    "'w env \<Rightarrow> config \<Rightarrow> cte_record \<Rightarrow> error \<Rightarrow> 'w state \<Rightarrow> task_result \<times> 'w state" where
  "executeTask env cfg record s =
     (let taskId = (rec_id record, dateNow env (world s));
          s0 = s\<lparr>trace := trace s @ [EvExecuteTask (rec_id record)],
                 runningTasks :=
                   AList.update taskId
                     \<lparr> task_recordId = rec_id record, task_startTime = dateNow env (world s) \<rparr>
                     (runningTasks s)\<rparr>
      in (case processRecord env cfg record s0 of
            (Some e, s1) \<Rightarrow>
              handleTaskFailure env cfg record e
                (s1\<lparr>runningTasks := AList.delete taskId (runningTasks s1)\<rparr>)
          | (None, s1) \<Rightarrow>
              (case executeSpecificTasks record s1 of
                 (Some e, s2) \<Rightarrow>
                   handleTaskFailure env cfg record e
                     (s2\<lparr>runningTasks := AList.delete taskId (runningTasks s2)\<rparr>)
               | (None, s2) \<Rightarrow>
                   (\<lparr> success = True, res_recordId = rec_id record, res_error = None \<rparr>,
                    s2\<lparr>runningTasks := AList.delete taskId (runningTasks s2)\<rparr>))))"
| "handleTaskFailure env cfg record err s =
     (let maxRetries = retryAttempts cfg;
          retryKey = rec_id record;
          currentRetries = (case map_of (retryCounters s) retryKey of None \<Rightarrow> 0 | Some c \<Rightarrow> c)
      in if currentRetries < maxRetries then
           executeTask env cfg record
             (delay env (retryDelay cfg)
                (s\<lparr>retryCounters := AList.update retryKey (currentRetries + 1) (retryCounters s)\<rparr>))
         else
           (\<lparr> success = False, res_recordId = rec_id record, res_error = Some err \<rparr>,
            s\<lparr>retryCounters := AList.delete retryKey (retryCounters s)\<rparr>))"
  by pat_completeness auto

section \<open>Scheduler tick\<close>

text \<open>
  \<open>DatabaseMonitor.processRecord\<close>: the result of \<open>executeTask\<close> decides whether the
  record is marked in the store and counted; an error of the marking is caught and logged.
\<close>

definition DatabaseMonitor_processRecord ::
  "'w env \<Rightarrow> config \<Rightarrow> cte_record \<Rightarrow> 'w state \<Rightarrow> 'w state" where
  "DatabaseMonitor_processRecord env cfg record s =
     (case executeTask env cfg record (s\<lparr>trace := trace s @ [EvProcessRecord (rec_id record)]\<rparr>) of
        (result, s1) \<Rightarrow>
          (let s2 = s1\<lparr>trace := trace s1 @ [EvTaskResult (rec_id record) (success result)]\<rparr>
           in if success result then
                (case markAsProcessed env (rec_id record) s2 of
                   (Inl e, s3) \<Rightarrow> s3
                 | (Inr r, s3) \<Rightarrow> s3\<lparr>processedCount := processedCount s3 + 1\<rparr>)
              else s2))"

text \<open>The \<open>for\<close> loop of \<open>checkDatabase\<close> over the fetched records.\<close>

fun processRecords :: "'w env \<Rightarrow> config \<Rightarrow> cte_record list \<Rightarrow> 'w state \<Rightarrow> 'w state" where
  "processRecords env cfg [] s = s"
| "processRecords env cfg (record # rest) s =
     processRecords env cfg rest (DatabaseMonitor_processRecord env cfg record s)"

definition checkDatabase :: "'w env \<Rightarrow> config \<Rightarrow> 'w state \<Rightarrow> 'w state" where
  "checkDatabase env cfg s =
     (case getRecordsToProcess env (s\<lparr>lastCheck := Some (dateNow env (world s))\<rparr>) of
        (Inl e, s1) \<Rightarrow> s1
      | (Inr records, s1) \<Rightarrow>
          if length records > 0 then processRecords env cfg records s1 else s1)"

section \<open>A platform to run the model on\<close>

text \<open>
  A small world for concrete runs: files with their content, paths whose read fails, a
  clock, the files another program writes during the next delay, and the records the
  store answers with. Directories are implicit and every request is answered \<open>200\<close>.
\<close>

record sim_world =
  files :: "(string \<times> string) list"
  unreadable :: "string list"
  clock :: int
  arriving :: "(string \<times> string) list"
  pendentes :: "cte_record list"

fun sim_join :: "string list \<Rightarrow> string" where
  "sim_join [] = ''.''"
| "sim_join [seg] = seg"
| "sim_join (seg # segs) = seg @ ''/'' @ sim_join segs"

definition sim_rename :: "string \<Rightarrow> string \<Rightarrow> sim_world \<Rightarrow> error option \<times> sim_world" where
  "sim_rename src dst w =
     (case map_of (files w) src of
        None \<Rightarrow> (Some (IOError src), w)
      | Some content \<Rightarrow> (None, w\<lparr>files := (dst, content) # AList.delete src (files w)\<rparr>))"

definition sim_readFile :: "sim_world \<Rightarrow> string \<Rightarrow> error + string" where
  "sim_readFile w p =
     (if p \<in> set (unreadable w) then Inl (IOError p)
      else (case map_of (files w) p of None \<Rightarrow> Inl (IOError p) | Some content \<Rightarrow> Inr content))"

definition sim_fetch :: "request \<Rightarrow> sim_world \<Rightarrow> response option \<times> sim_world" where
  "sim_fetch req w =
     (Some (Response True 200
        (Some (case req of GetPendentes \<Rightarrow> Records (pendentes w) | _ \<Rightarrow> Object (Some True)))), w)"

definition sim_env :: "sim_world env" where
  "sim_env =
     \<lparr> pathJoin = sim_join,
       access = (\<lambda>w p. map_of (files w) p \<noteq> None),
       mkdir = (\<lambda>dir w. (None, w)),
       rename = sim_rename,
       readFile = sim_readFile,
       dateNow = clock,
       sleep = (\<lambda>ms w. w\<lparr>clock := clock w + ms, files := arriving w @ files w, arriving := []\<rparr>),
       fetch = sim_fetch \<rparr>"

definition empty_world :: sim_world where
  "empty_world = \<lparr> files = [], unreadable = [], clock = 0, arriving = [], pendentes = [] \<rparr>"

section \<open>Notions used in the properties\<close>

text \<open>A step that changes nothing but the world and appends to the trace.\<close>

definition io_step :: "'w state \<Rightarrow> 'w state \<Rightarrow> bool" where
  "io_step s s' = (\<exists>w tr. s' = s\<lparr>world := w, trace := trace s @ tr\<rparr>)"

text \<open>A record with a well-formed key, and a world holding its XML in the source folder.\<close>

definition rec7 :: cte_record where
  "rec7 = \<lparr> rec_id = 7, numero_cte = Some ''35250612345678000199570010000001231000001234'',
            rec_status = ''pendente'' \<rparr>"

definition world7 :: sim_world where
  "world7 = empty_world\<lparr>files :=
     [(''./xml/gerados/35250612345678000199570010000001231000001234.xml'', ''<CTe/>'')]\<rparr>"

definition state7 :: "sim_world state" where
  "state7 = TaskExecutor_new sim_env default_config world7"

text \<open>
  The pieces of one round of \<open>executeTask\<close>: the retry count \<open>handleTaskFailure\<close>
  reads, the state in which the \<open>try\<close> block calls \<open>processRecord\<close>, the state after
  the \<open>catch\<close> has removed the running task, and the state in which the next attempt
  starts (counter raised, delay over).
\<close>

definition currentRetries :: "cte_record \<Rightarrow> 'w state \<Rightarrow> nat" where
  "currentRetries r s = (case map_of (retryCounters s) (rec_id r) of None \<Rightarrow> 0 | Some c \<Rightarrow> c)"

definition attempt_state :: "'w env \<Rightarrow> cte_record \<Rightarrow> 'w state \<Rightarrow> 'w state" where
  "attempt_state env r s =
     s\<lparr>trace := trace s @ [EvExecuteTask (rec_id r)],
       runningTasks :=
         AList.update (rec_id r, dateNow env (world s))
           \<lparr> task_recordId = rec_id r, task_startTime = dateNow env (world s) \<rparr>
           (runningTasks s)\<rparr>"

definition caught_state :: "'w env \<Rightarrow> cte_record \<Rightarrow> 'w state \<Rightarrow> 'w state \<Rightarrow> 'w state" where
  "caught_state env r s s1 =
     s1\<lparr>runningTasks := AList.delete (rec_id r, dateNow env (world s)) (runningTasks s1)\<rparr>"

definition retry_state :: "'w env \<Rightarrow> config \<Rightarrow> cte_record \<Rightarrow> 'w state \<Rightarrow> 'w state" where
  "retry_state env cfg r s2 =
     delay env (retryDelay cfg)
       (s2\<lparr>retryCounters := AList.update (rec_id r) (currentRetries r s2 + 1) (retryCounters s2)\<rparr>)"

text \<open>
  What holds of the executor's own fields between calls: the keys of \<open>processingFiles\<close>
  are distinct, the active scan timers are exactly the one \<open>processedFileInterval\<close>
  holds, if any, and \<open>apiClient\<close>, which no method assigns, is undefined.
\<close>

definition executor_inv :: "'w state \<Rightarrow> bool" where
  "executor_inv s =
     (distinct (map fst (processingFiles s)) \<and>
      map fst (intervals s) = (case processedFileInterval s of None \<Rightarrow> [] | Some h \<Rightarrow> [h]) \<and>
      apiClient s = None)"

text \<open>
  The states the application can be in: the constructor's, and then any public method of
  the executor or a scheduler tick, with the world changing freely in between.
\<close>

inductive reachable :: "'w env \<Rightarrow> config \<Rightarrow> 'w state \<Rightarrow> bool" for env cfg where
  created: "reachable env cfg (TaskExecutor_new env cfg w)"
| executed: "reachable env cfg s \<Longrightarrow> reachable env cfg (snd (executeTask env cfg r s))"
| registered: "reachable env cfg s \<Longrightarrow> reachable env cfg (waitForProcessedFile env cfg r c s)"
| scanned: "reachable env cfg s \<Longrightarrow> reachable env cfg (checkProcessedFiles env cfg s)"
| started: "reachable env cfg s \<Longrightarrow> reachable env cfg (startProcessedFileMonitoring cfg s)"
| stopped: "reachable env cfg s \<Longrightarrow> reachable env cfg (stopProcessedFileMonitoring s)"
| cleaned: "reachable env cfg s \<Longrightarrow> reachable env cfg (cleanup s)"
| ticked: "reachable env cfg s \<Longrightarrow> reachable env cfg (checkDatabase env cfg s)"
| world_changed: "reachable env cfg s \<Longrightarrow> reachable env cfg (s\<lparr>world := w\<rparr>)"

text \<open>A step of the record store client: the world and \<open>isConnected\<close> only.\<close>

definition client_step :: "'w state \<Rightarrow> 'w state \<Rightarrow> bool" where
  "client_step s s' = (\<exists>w b. s' = s\<lparr>world := w, isConnected := b\<rparr>)"

text \<open>
  A registry of three watch entries at time 700000: the artifact of record 7 is there and
  authorized, that of record 8 is absent, that of record 9 is there and cannot be read.
  Here the executor has been given the client.
\<close>

definition watch7 :: file_info where
  "watch7 = \<lparr> recordId = 7, numeroCtE = Some ''35250612345678000199570010000001231000001234'',
      cnpj = ''12345678000199'',
      processedPath =
        ''./xml/cnpj/12345678000199/processados/35250612345678000199570010000001231000001234.xml'',
      startTime = 0 \<rparr>"

definition watch8 :: file_info where
  "watch8 = \<lparr> recordId = 8, numeroCtE = Some ''35250612345678000199570010000001241000001235'',
      cnpj = ''12345678000199'',
      processedPath =
        ''./xml/cnpj/12345678000199/processados/35250612345678000199570010000001241000001235.xml'',
      startTime = 50000 \<rparr>"

definition watch9 :: file_info where
  "watch9 = \<lparr> recordId = 9, numeroCtE = Some ''35250612345678000199570010000001251000001236'',
      cnpj = ''12345678000199'',
      processedPath =
        ''./xml/cnpj/12345678000199/processados/35250612345678000199570010000001251000001236.xml'',
      startTime = 60000 \<rparr>"

definition scan_state :: "sim_world state" where
  "scan_state =
     \<lparr> world =
         \<lparr> files = [(processedPath watch7, ''<retCTe><cStat>100</cStat></retCTe>''),
                    (processedPath watch9, ''<retCTe><cStat>100</cStat></retCTe>'')],
           unreadable = [processedPath watch9], clock = 700000, arriving = [], pendentes = [] \<rparr>,
       trace = [], intervals = [(0, 30000)], nextHandle = 1, runningTasks = [],
       processingFiles = [(7, watch7), (8, watch8), (9, watch9)],
       processedFileInterval = Some 0, retryCounters = [], apiClient = Some ApiClient,
       isConnected = True, lastCheck = None, processedCount = 0 \<rparr>"

text \<open>
  The executor as the application builds it, after one run for record 7 has moved the XML
  and registered the watch, and after the external program has written the processed
  counterpart with the authorization marker.
\<close>

definition waiting7 :: "sim_world state" where
  "waiting7 =
     (let s = snd (executeTask sim_env default_config rec7 state7)
      in s\<lparr>world := (world s)\<lparr>files :=
             (processedPath watch7, ''<retCTe><cStat>100</cStat></retCTe>'') # files (world s),
           clock := 30000\<rparr>\<rparr>)"

text \<open>
  \<open>attempts_fail n\<close>: the first \<open>n\<close> attempts of \<open>executeTask\<close> from a state all
  end in an error of \<open>processRecord\<close>, each next attempt starting where the retry of
  the one before leaves the state. \<open>attempts_and_delays\<close> keeps, of a trace, the starts
  of an attempt and the delays.
\<close>

fun attempts_fail :: "nat \<Rightarrow> 'w env \<Rightarrow> config \<Rightarrow> cte_record \<Rightarrow> 'w state \<Rightarrow> bool" where
  "attempts_fail 0 env cfg r s = True"
| "attempts_fail (Suc n) env cfg r s =
     (case processRecord env cfg r (attempt_state env r s) of
        (None, s1) \<Rightarrow> False
      | (Some e, s1) \<Rightarrow>
          attempts_fail n env cfg r (retry_state env cfg r (caught_state env r s s1)))"

definition attempts_and_delays :: "event list \<Rightarrow> event list" where
  "attempts_and_delays tr =
     filter (\<lambda>e. case e of EvExecuteTask i \<Rightarrow> True | EvDelay ms \<Rightarrow> True | _ \<Rightarrow> False) tr"

text \<open>
  The executor as constructed over an empty world (no XML anywhere); the same with the
  XML of record 7 arriving in the source folder during the next delay; and a record whose
  key has 44 characters with letters among those at offset 6.
\<close>

definition fresh_state :: "sim_world state" where
  "fresh_state = TaskExecutor_new sim_env default_config empty_world"

definition late_state :: "sim_world state" where
  "late_state = TaskExecutor_new sim_env default_config
     (empty_world\<lparr>arriving :=
        [(''./xml/gerados/35250612345678000199570010000001231000001234.xml'', ''<CTe/>'')]\<rparr>)"

definition rec2 :: cte_record where
  "rec2 = \<lparr> rec_id = 2, numero_cte = Some ''352506ABCDEFGH000199570010000001231000001234'',
            rec_status = ''pendente'' \<rparr>"

text \<open>
  Of a trace: the record ids \<open>DatabaseMonitor.processRecord\<close> was called with, and the
  results \<open>executeTask\<close> gave back to it, both in order. Every other event is an
  executor event.
\<close>

fun processRecord_calls :: "event list \<Rightarrow> nat list" where
  "processRecord_calls [] = []"
| "processRecord_calls (EvProcessRecord i # tr) = i # processRecord_calls tr"
| "processRecord_calls (e # tr) = processRecord_calls tr"

fun task_results :: "event list \<Rightarrow> (nat \<times> bool) list" where
  "task_results [] = []"
| "task_results (EvTaskResult i b # tr) = (i, b) # task_results tr"
| "task_results (e # tr) = task_results tr"

definition executor_event :: "event \<Rightarrow> bool" where
  "executor_event e =
     (case e of EvProcessRecord i \<Rightarrow> False | EvTaskResult i b \<Rightarrow> False | _ \<Rightarrow> True)"

text \<open>An executor step: the trace grows by executor events, the counter stays.\<close>

definition executor_step :: "'w state \<Rightarrow> 'w state \<Rightarrow> bool" where
  "executor_step s s' =
     ((\<exists>tr. trace s' = trace s @ tr \<and> list_all executor_event tr) \<and>
      processedCount s' = processedCount s)"

text \<open>
  A tick over three fetched records: record 7 and record 9 have their XML in the source
  folder, record 2 has a malformed key.
\<close>

definition rec9 :: cte_record where
  "rec9 = \<lparr> rec_id = 9, numero_cte = Some ''35250612345678000199570010000001251000001236'',
            rec_status = ''pendente'' \<rparr>"

definition batch_state :: "sim_world state" where
  "batch_state = TaskExecutor_new sim_env default_config
     (empty_world\<lparr>pendentes := [rec7, rec2, rec9],
        files :=
          [(''./xml/gerados/35250612345678000199570010000001231000001234.xml'', ''<CTe/>''),
           (''./xml/gerados/35250612345678000199570010000001251000001236.xml'', ''<CTe/>'')]\<rparr>)"

section \<open>Frames\<close>

lemma io_step_refl: "io_step s s"
  unfolding io_step_def by (rule exI[of _ "world s"], rule exI[of _ "[]"]) simp

lemma io_step_trans: "io_step s s1 \<Longrightarrow> io_step s1 s2 \<Longrightarrow> io_step s s2"
  unfolding io_step_def
  by (elim exE, rename_tac w tr w' tr', rule_tac x=w' in exI, rule_tac x="tr @ tr'" in exI) simp

lemma fs_mkdir_io: "fs_mkdir env d s = (r, s') \<Longrightarrow> io_step s s'"
  unfolding io_step_def fs_mkdir_def by (auto split: prod.splits)

lemma fs_rename_io: "fs_rename env a b s = (r, s') \<Longrightarrow> io_step s s'"
  unfolding io_step_def fs_rename_def by (auto split: prod.splits)

lemma moveExisting_io:
  "moveExistingXMLToCNPJFolder env cfg r c s = (res, s') \<Longrightarrow> io_step s s'"
  unfolding moveExistingXMLToCNPJFolder_def Let_def
  by (auto split: if_splits prod.splits option.splits
      intro: io_step_refl io_step_trans dest!: fs_mkdir_io fs_rename_io)

lemma io_step_retryCounters: "io_step s s' \<Longrightarrow> retryCounters s' = retryCounters s"
  unfolding io_step_def by auto

lemma startProcessedFileMonitoring_retryCounters:
  "retryCounters (startProcessedFileMonitoring cfg s) = retryCounters s"
  by (simp add: startProcessedFileMonitoring_def setInterval_def split: option.splits)

lemma processRecord_retryCounters:
  "processRecord env cfg r s = (res, s') \<Longrightarrow> retryCounters s' = retryCounters s"
  unfolding processRecord_def handlePendingDocument_def waitForProcessedFile_def Let_def
  by (auto split: option.splits if_splits prod.splits sum.splits
      simp: startProcessedFileMonitoring_retryCounters
      dest!: moveExisting_io io_step_retryCounters)

text \<open>
  Every retry raises the record's counter, and a retry is made only below
  \<open>retryAttempts\<close>: the recursion ends.
\<close>

termination executeTask
  apply (relation "measure (\<lambda>x. case x of
          Inl (env, cfg, r, s) \<Rightarrow>
            2 * (retryAttempts cfg
                 - (case map_of (retryCounters s) (rec_id r) of None \<Rightarrow> 0 | Some c \<Rightarrow> c)) + 1
        | Inr (env, cfg, r, e, s) \<Rightarrow>
            2 * (retryAttempts cfg
                 - (case map_of (retryCounters s) (rec_id r) of None \<Rightarrow> 0 | Some c \<Rightarrow> c)))")
     apply simp
    apply (auto simp: executeSpecificTasks_def delay_def AList.update_conv'
      dest!: processRecord_retryCounters[OF sym] split: option.splits)
  done

section \<open>The sub-identifier\<close>

lemma extract_valid:
  assumes "length key = 44" and "list_all is_digit (take 14 (drop 6 key))"
  shows "extractCNPJFromChaveAcesso (Some key) = Some (take 14 (drop 6 key))"
proof -
  have "key \<noteq> []" using assms(1) by auto
  moreover have "length (take 14 (drop 6 key)) = 14" using assms(1) by simp
  ultimately show ?thesis
    using assms by (simp add: extractCNPJFromChaveAcesso_def substring_def fourteen_digits_def)
qed

lemma startProcessedFileMonitoring_trace:
  "trace (startProcessedFileMonitoring cfg s) = trace s"
  by (simp add: startProcessedFileMonitoring_def setInterval_def split: option.splits)

lemma startProcessedFileMonitoring_processingFiles:
  "processingFiles (startProcessedFileMonitoring cfg s) = processingFiles s"
  by (simp add: startProcessedFileMonitoring_def setInterval_def split: option.splits)

lemma io_step_processingFiles: "io_step s s' \<Longrightarrow> processingFiles s' = processingFiles s"
  unfolding io_step_def by auto

lemma moveExisting_trace_ok:
  assumes "moveExistingXMLToCNPJFolder env cfg r c s = (Inr target, s')"
  shows "trace s' = trace s @
           [EvMkdir (pathJoin env [cnpjBasePath cfg, c]),
            EvMkdir (pathJoin env [pathJoin env [cnpjBasePath cfg, c], processedFolder cfg]),
            EvRename (pathJoin env [sourceFolder cfg, template (numero_cte r) @ ''.xml''])
              (pathJoin env [pathJoin env [cnpjBasePath cfg, c], template (numero_cte r) @ ''.xml''])]"
  using assms unfolding moveExistingXMLToCNPJFolder_def Let_def fs_mkdir_def fs_rename_def
  by (auto split: if_splits prod.splits option.splits)

text \<open>
  C6. For a key of exactly 44 characters whose characters at offset 6, length 14, are all
  digits, the derived sub-identifier is that substring; and whenever \<open>processRecord\<close>
  relocates the artifact of a pending record with that key, the file system calls it makes
  are the creation of the folder \<open>pathJoin [cnpjBasePath, sub-identifier]\<close>, of its
  processed subfolder, and the move of \<open><key>.xml\<close> from the source folder into that
  folder; the watch entry registered carries the same sub-identifier.
\<close>

theorem sub_identifier_names_folder:
  assumes "length key = 44" and "list_all is_digit (take 14 (drop 6 key))"
  shows "extractCNPJFromChaveAcesso (Some key) = Some (take 14 (drop 6 key)) \<and>
         (\<forall>env cfg r s s'.
            numero_cte r = Some key \<longrightarrow> rec_status r = ''pendente'' \<longrightarrow>
            processRecord env cfg r s = (None, s') \<longrightarrow>
            trace s' = trace s @
              [EvMkdir (pathJoin env [cnpjBasePath cfg, take 14 (drop 6 key)]),
               EvMkdir (pathJoin env
                  [pathJoin env [cnpjBasePath cfg, take 14 (drop 6 key)], processedFolder cfg]),
               EvRename (pathJoin env [sourceFolder cfg, key @ ''.xml''])
                 (pathJoin env
                    [pathJoin env [cnpjBasePath cfg, take 14 (drop 6 key)], key @ ''.xml''])] \<and>
            map_option cnpj (map_of (processingFiles s') (rec_id r))
              = Some (take 14 (drop 6 key)))"
proof (intro conjI allI impI)
  show ex: "extractCNPJFromChaveAcesso (Some key) = Some (take 14 (drop 6 key))"
    by (rule extract_valid[OF assms])
  fix env :: "'a env" and cfg r and s s' :: "'a state"
  assume k: "numero_cte r = Some key" and p: "rec_status r = ''pendente''"
    and run: "processRecord env cfg r s = (None, s')"
  from run ex k p obtain target s1 where
    mv: "moveExistingXMLToCNPJFolder env cfg r (take 14 (drop 6 key)) s = (Inr target, s1)"
    and s': "s' = waitForProcessedFile env cfg r (take 14 (drop 6 key)) s1"
    by (auto simp: processRecord_def handlePendingDocument_def split: prod.splits sum.splits)
  have "trace s' = trace s1"
    by (simp add: s' waitForProcessedFile_def Let_def startProcessedFileMonitoring_trace)
  with moveExisting_trace_ok[OF mv] k
  show "trace s' = trace s @
              [EvMkdir (pathJoin env [cnpjBasePath cfg, take 14 (drop 6 key)]),
               EvMkdir (pathJoin env
                  [pathJoin env [cnpjBasePath cfg, take 14 (drop 6 key)], processedFolder cfg]),
               EvRename (pathJoin env [sourceFolder cfg, key @ ''.xml''])
                 (pathJoin env
                    [pathJoin env [cnpjBasePath cfg, take 14 (drop 6 key)], key @ ''.xml''])]"
    by (simp add: template_def)
  show "map_option cnpj (map_of (processingFiles s') (rec_id r)) = Some (take 14 (drop 6 key))"
    by (simp add: s' waitForProcessedFile_def Let_def startProcessedFileMonitoring_processingFiles
        AList.update_conv')
qed

lemma run7: "fst (processRecord sim_env default_config rec7 state7) = None"
  by code_simp

theorem sub_identifier_names_folder_witness:
  "extractCNPJFromChaveAcesso (Some ''35250612345678000199570010000001231000001234'')
     = Some ''12345678000199'' \<and>
   trace (snd (processRecord sim_env default_config rec7 state7)) = trace state7 @
     [EvMkdir ''./xml/cnpj/12345678000199'',
      EvMkdir ''./xml/cnpj/12345678000199/processados'',
      EvRename ''./xml/gerados/35250612345678000199570010000001231000001234.xml''
        ''./xml/cnpj/12345678000199/35250612345678000199570010000001231000001234.xml''] \<and>
   map_option cnpj (map_of (processingFiles (snd (processRecord sim_env default_config rec7 state7))) 7)
     = Some ''12345678000199''"
proof -
  have len: "length ''35250612345678000199570010000001231000001234'' = 44" by simp
  have dig: "list_all is_digit (take 14 (drop 6 ''35250612345678000199570010000001231000001234''))"
    by (simp add: is_digit_def)
  have run: "processRecord sim_env default_config rec7 state7
               = (None, snd (processRecord sim_env default_config rec7 state7))"
    using run7 by (simp add: prod_eq_iff)
  have k: "numero_cte rec7 = Some ''35250612345678000199570010000001231000001234''"
    and p: "rec_status rec7 = ''pendente''" and i: "rec_id rec7 = 7"
    by (simp_all add: rec7_def)
  note th = sub_identifier_names_folder[OF len dig]
  from th have a:
    "extractCNPJFromChaveAcesso (Some ''35250612345678000199570010000001231000001234'')
       = Some (take 14 (drop 6 ''35250612345678000199570010000001231000001234''))"
    by (rule conjunct1)
  from th[THEN conjunct2, rule_format, OF k p run] a i show ?thesis
    by (simp add: sim_env_def default_config_def)
qed

section \<open>The retry loop\<close>

lemma executeTask_unfold:
  "executeTask env cfg r s =
     (case processRecord env cfg r (attempt_state env r s) of
        (None, s1) \<Rightarrow>
          (\<lparr> success = True, res_recordId = rec_id r, res_error = None \<rparr>,
           caught_state env r s s1)
      | (Some e, s1) \<Rightarrow>
          if currentRetries r s1 < retryAttempts cfg then
            executeTask env cfg r (retry_state env cfg r (caught_state env r s s1))
          else
            (\<lparr> success = False, res_recordId = rec_id r, res_error = Some e \<rparr>,
             (caught_state env r s s1)\<lparr>retryCounters := AList.delete (rec_id r) (retryCounters s1)\<rparr>))"
  apply (subst executeTask.simps)
  apply (simp add: handleTaskFailure.simps executeSpecificTasks_def Let_def attempt_state_def
      caught_state_def retry_state_def currentRetries_def
      split: prod.splits option.splits del: executeTask.simps)
  done


declare executeTask.simps [simp del] handleTaskFailure.simps [simp del]

lemma attempt_state_retryCounters [simp]: "retryCounters (attempt_state env r s) = retryCounters s"
  by (simp add: attempt_state_def)

lemma caught_state_retryCounters [simp]: "retryCounters (caught_state env r s s1) = retryCounters s1"
  by (simp add: caught_state_def)

lemma currentRetries_retry_state:
  "currentRetries r (retry_state env cfg r s) = currentRetries r s + 1"
  by (simp add: retry_state_def currentRetries_def delay_def AList.update_conv')

lemma currentRetries_cong: "retryCounters s' = retryCounters s \<Longrightarrow> currentRetries r s' = currentRetries r s"
  by (simp add: currentRetries_def)

lemma executeTask_induct [consumes 0, case_names attempt]:
  assumes "\<And>s. (\<And>e s1. processRecord env cfg r (attempt_state env r s) = (Some e, s1) \<Longrightarrow>
                    currentRetries r s1 < retryAttempts cfg \<Longrightarrow>
                    P (retry_state env cfg r (caught_state env r s s1))) \<Longrightarrow> P s"
  shows "P s"
proof (induction "retryAttempts cfg - currentRetries r s" arbitrary: s rule: less_induct)
  case less
  show ?case
  proof (rule assms)
    fix e s1
    assume pr: "processRecord env cfg r (attempt_state env r s) = (Some e, s1)"
      and lt: "currentRetries r s1 < retryAttempts cfg"
    have "currentRetries r s1 = currentRetries r s"
      using processRecord_retryCounters[OF pr] by (simp add: currentRetries_def)
    moreover have "currentRetries r (retry_state env cfg r (caught_state env r s s1))
                     = currentRetries r s1 + 1"
      by (simp add: currentRetries_retry_state
          currentRetries_cong[of "caught_state env r s s1" s1])
    ultimately show "P (retry_state env cfg r (caught_state env r s s1))"
      using lt by (intro less) simp
  qed
qed

lemma executeTask_preserves:
  fixes Inv :: "'w state \<Rightarrow> bool"
  assumes a: "\<And>s. Inv s \<Longrightarrow> Inv (s\<lparr>trace := trace s @ [EvExecuteTask (rec_id r)]\<rparr>)"
    and p: "\<And>s res s'. Inv s \<Longrightarrow> processRecord env cfg r s = (res, s') \<Longrightarrow> Inv s'"
    and c: "\<And>s x. Inv s \<Longrightarrow> Inv (s\<lparr>runningTasks := x\<rparr>)"
    and rc: "\<And>s x. Inv s \<Longrightarrow> Inv (s\<lparr>retryCounters := x\<rparr>)"
    and d: "\<And>s. Inv s \<Longrightarrow> Inv (delay env (retryDelay cfg) s)"
  shows "Inv s \<Longrightarrow> Inv (snd (executeTask env cfg r s))"
proof (induction s rule: executeTask_induct[where env=env and cfg=cfg and r=r])
  case (attempt s)
  have i0: "Inv (attempt_state env r s)"
    using attempt.prems by (auto simp: attempt_state_def intro!: a c)
  obtain res s1 where pr: "processRecord env cfg r (attempt_state env r s) = (res, s1)"
    by (cases "processRecord env cfg r (attempt_state env r s)")
  have i1: "Inv s1" by (rule p[OF i0 pr])
  have i2: "Inv (caught_state env r s s1)" unfolding caught_state_def by (rule c[OF i1])
  show ?case
  proof (cases res)
    case None
    with pr i2 show ?thesis by (subst executeTask_unfold) simp
  next
    case (Some e)
    show ?thesis
    proof (cases "currentRetries r s1 < retryAttempts cfg")
      case True
      have "Inv (retry_state env cfg r (caught_state env r s s1))"
        unfolding retry_state_def by (intro d rc i2)
      from attempt.IH[OF pr[unfolded Some] True this] pr Some True
      show ?thesis by (subst executeTask_unfold) simp
    next
      case False
      with pr Some rc[OF i2] show ?thesis by (subst executeTask_unfold) simp
    qed
  qed
qed

section \<open>Registry and timer invariants\<close>

lemma io_step_executor_inv: "io_step s s' \<Longrightarrow> executor_inv s \<Longrightarrow> executor_inv s'"
  unfolding io_step_def executor_inv_def by auto

lemma start_executor_inv:
  "executor_inv s \<Longrightarrow> executor_inv (startProcessedFileMonitoring cfg s)"
  by (auto simp: executor_inv_def startProcessedFileMonitoring_def setInterval_def
      split: option.splits)

lemma stop_executor_inv: "executor_inv s \<Longrightarrow> executor_inv (stopProcessedFileMonitoring s)"
  by (auto simp: executor_inv_def stopProcessedFileMonitoring_def clearInterval_def
      split: option.splits)

lemma cleanup_executor_inv: "executor_inv s \<Longrightarrow> executor_inv (cleanup s)"
  using stop_executor_inv[of s] by (simp add: cleanup_def executor_inv_def)

lemma wait_executor_inv:
  "executor_inv s \<Longrightarrow> executor_inv (waitForProcessedFile env cfg r c s)"
  unfolding waitForProcessedFile_def Let_def
  by (rule start_executor_inv) (simp add: executor_inv_def distinct_update)

lemma processRecord_executor_inv:
  "processRecord env cfg r s = (res, s') \<Longrightarrow> executor_inv s \<Longrightarrow> executor_inv s'"
  unfolding processRecord_def handlePendingDocument_def
  by (auto split: option.splits if_splits prod.splits sum.splits
      dest!: moveExisting_io intro: wait_executor_inv io_step_executor_inv)

lemma executeTask_executor_inv:
  "executor_inv s \<Longrightarrow> executor_inv (snd (executeTask env cfg r s))"
proof (rule executeTask_preserves[where Inv=executor_inv])
  show "\<And>s res s'. executor_inv s \<Longrightarrow> processRecord env cfg r s = (res, s') \<Longrightarrow> executor_inv s'"
    by (rule processRecord_executor_inv)
qed (simp_all add: executor_inv_def delay_def)

lemma io_stepI: "s' = s\<lparr>world := w, trace := trace s @ tr\<rparr> \<Longrightarrow> io_step s s'"
  unfolding io_step_def by blast

lemma do_fetch_io: "do_fetch env req s = (res, s') \<Longrightarrow> io_step s s'"
  unfolding do_fetch_def
  by (auto split: prod.splits intro!: io_stepI[where tr="[]"])

lemma markAsProcessed_io: "markAsProcessed env i s = (res, s') \<Longrightarrow> io_step s s'"
proof -
  assume a: "markAsProcessed env i s = (res, s')"
  have 1: "io_step s (s\<lparr>trace := trace s @ [EvMarkAsProcessed i]\<rparr>)"
    unfolding io_step_def by (rule exI[of _ "world s"], rule exI[of _ "[EvMarkAsProcessed i]"]) simp
  obtain r1 s1 where f: "do_fetch env (PutStatus i) (s\<lparr>trace := trace s @ [EvMarkAsProcessed i]\<rparr>) = (r1, s1)"
    by (cases "do_fetch env (PutStatus i) (s\<lparr>trace := trace s @ [EvMarkAsProcessed i]\<rparr>)")
  from a f have "s' = s1"
    by (auto simp: markAsProcessed_def split: option.splits if_splits body.splits)
  with io_step_trans[OF 1 do_fetch_io[OF f]] show ?thesis by simp
qed

lemma markCTEAsEmitted_io: "markCTEAsEmitted env i s = (res, s') \<Longrightarrow> io_step s s'"
  unfolding markCTEAsEmitted_def
  by (auto split: option.splits prod.splits sum.splits intro: io_step_refl dest: markAsProcessed_io)

lemma delete_executor_inv:
  "executor_inv s \<Longrightarrow> executor_inv (s\<lparr>processingFiles := AList.delete k (processingFiles s)\<rparr>)"
  by (simp add: executor_inv_def distinct_delete)

lemma checkEntries_executor_inv:
  "executor_inv s \<Longrightarrow> executor_inv (checkEntries env cfg es s)"
proof (induction es arbitrary: s)
  case Nil
  then show ?case by simp
next
  case (Cons a es)
  obtain k fi where a: "a = (k, fi)" by (cases a)
  show ?case unfolding a checkEntries.simps
    by (rule Cons.IH)
      (auto split: prod.splits option.splits
        intro: delete_executor_inv Cons.prems io_step_executor_inv[OF markCTEAsEmitted_io])
qed

lemma checkProcessedFiles_executor_inv:
  "executor_inv s \<Longrightarrow> executor_inv (checkProcessedFiles env cfg s)"
  by (simp add: checkProcessedFiles_def checkEntries_executor_inv)


lemma setupDirectories_io: "io_step s (setupDirectories env cfg s)"
proof -
  obtain r1 s1 where a: "fs_mkdir env (sourceFolder cfg) s = (r1, s1)"
    by (cases "fs_mkdir env (sourceFolder cfg) s")
  obtain r2 s2 where b: "fs_mkdir env (cnpjBasePath cfg) s1 = (r2, s2)"
    by (cases "fs_mkdir env (cnpjBasePath cfg) s1")
  show ?thesis
    using a b fs_mkdir_io[OF a] io_step_trans[OF fs_mkdir_io[OF a] fs_mkdir_io[OF b]]
    by (cases r1) (simp_all add: setupDirectories_def)
qed

lemma new_executor_inv: "executor_inv (TaskExecutor_new env cfg w)"
  unfolding TaskExecutor_new_def
  by (rule io_step_executor_inv[OF setupDirectories_io]) (simp add: executor_inv_def)

lemma monitor_processRecord_executor_inv:
  assumes "executor_inv s"
  shows "executor_inv (DatabaseMonitor_processRecord env cfg r s)"
proof -
  let ?s0 = "s\<lparr>trace := trace s @ [EvProcessRecord (rec_id r)]\<rparr>"
  obtain res s1 where e: "executeTask env cfg r ?s0 = (res, s1)" by (cases "executeTask env cfg r ?s0")
  have "executor_inv ?s0" using assms by (simp add: executor_inv_def)
  from executeTask_executor_inv[OF this, of env cfg r] e have i1: "executor_inv s1" by simp
  let ?s2 = "s1\<lparr>trace := trace s1 @ [EvTaskResult (rec_id r) (success res)]\<rparr>"
  have i2: "executor_inv ?s2" using i1 by (simp add: executor_inv_def)
  show ?thesis
  proof (cases "success res")
    case False
    with e i2 show ?thesis by (simp add: DatabaseMonitor_processRecord_def Let_def)
  next
    case True
    obtain m s3 where m: "markAsProcessed env (rec_id r) ?s2 = (m, s3)"
      by (cases "markAsProcessed env (rec_id r) ?s2")
    have i3: "executor_inv s3" by (rule io_step_executor_inv[OF markAsProcessed_io[OF m] i2])
    then have i4: "executor_inv (s3\<lparr>processedCount := processedCount s3 + 1\<rparr>)"
      by (simp add: executor_inv_def)
    show ?thesis
      using e m i3 i4 True
      by (cases m) (simp_all add: DatabaseMonitor_processRecord_def Let_def)
  qed
qed

lemma processRecords_executor_inv:
  "executor_inv s \<Longrightarrow> executor_inv (processRecords env cfg rs s)"
  by (induction rs arbitrary: s) (simp_all add: monitor_processRecord_executor_inv)

lemma client_stepI: "s' = s\<lparr>world := w, isConnected := b\<rparr> \<Longrightarrow> client_step s s'"
  unfolding client_step_def by blast

lemma client_step_refl: "client_step s s"
  by (rule client_stepI[where w="world s" and b="isConnected s"]) simp

lemma client_step_trans: "client_step s s1 \<Longrightarrow> client_step s1 s2 \<Longrightarrow> client_step s s2"
  unfolding client_step_def by (elim exE, rename_tac w b w' b', rule_tac x=w' in exI, rule_tac x="b'" in exI) simp

lemma do_fetch_client: "do_fetch env req s = (r, s') \<Longrightarrow> client_step s s'"
  unfolding do_fetch_def
  by (auto split: prod.splits intro!: client_stepI[where b="isConnected s"])

lemma connect_client: "connect env s = (r, s') \<Longrightarrow> client_step s s'"
proof -
  assume a: "connect env s = (r, s')"
  obtain b s1 where t: "testConnection env s = (b, s1)" by (cases "testConnection env s")
  obtain r0 s0 where f: "do_fetch env GetStats s = (r0, s0)" by (cases "do_fetch env GetStats s")
  from t f have "s1 = s0" by (auto simp: testConnection_def split: option.splits if_splits)
  with do_fetch_client[OF f] have 1: "client_step s s1" by simp
  have 2: "\<And>x. client_step s1 (s1\<lparr>isConnected := x\<rparr>)"
    by (rule client_stepI[where w="world s1"]) simp
  obtain r3 s3 where g: "do_fetch env PostSetup (s1\<lparr>isConnected := True\<rparr>) = (r3, s3)"
    by (cases "do_fetch env PostSetup (s1\<lparr>isConnected := True\<rparr>)")
  show ?thesis
    using a t g client_step_trans[OF 1 2] client_step_trans[OF client_step_trans[OF 1 2] do_fetch_client[OF g]]
    by (cases b) (auto simp: connect_def setupTable_def)
qed

lemma getRecordsToProcess_client: "getRecordsToProcess env s = (res, s') \<Longrightarrow> client_step s s'"
proof -
  assume a: "getRecordsToProcess env s = (res, s')"
  obtain r1 s1 where c: "(if \<not> isConnected s then connect env s else (None, s)) = (r1, s1)"
    by (cases "(if \<not> isConnected s then connect env s else (None, s))")
  then have 1: "client_step s s1"
    by (auto split: if_splits intro: connect_client client_step_refl)
  obtain r2 s2 where f: "do_fetch env GetPendentes s1 = (r2, s2)" by (cases "do_fetch env GetPendentes s1")
  have 2: "client_step s s2" by (rule client_step_trans[OF 1 do_fetch_client[OF f]])
  show ?thesis
    using a c f 1 2 unfolding getRecordsToProcess_def
    by (auto split: option.splits if_splits body.splits)
qed

lemma client_step_executor_inv: "client_step s s' \<Longrightarrow> executor_inv s \<Longrightarrow> executor_inv s'"
  unfolding client_step_def executor_inv_def by auto

lemma checkDatabase_executor_inv:
  assumes "executor_inv s"
  shows "executor_inv (checkDatabase env cfg s)"
proof -
  let ?s0 = "s\<lparr>lastCheck := Some (dateNow env (world s))\<rparr>"
  obtain res s1 where g: "getRecordsToProcess env ?s0 = (res, s1)"
    by (cases "getRecordsToProcess env ?s0")
  have "executor_inv ?s0" using assms by (simp add: executor_inv_def)
  then have "executor_inv s1" by (rule client_step_executor_inv[OF getRecordsToProcess_client[OF g]])
  then show ?thesis using g
    by (cases res) (simp_all add: checkDatabase_def processRecords_executor_inv)
qed

lemma reachable_executor_inv: "reachable env cfg s \<Longrightarrow> executor_inv s"
proof (induction rule: reachable.induct)
  case (world_changed s w)
  then show ?case by (simp add: executor_inv_def)
qed (simp_all add: new_executor_inv executeTask_executor_inv wait_executor_inv
      checkProcessedFiles_executor_inv start_executor_inv stop_executor_inv cleanup_executor_inv
      checkDatabase_executor_inv)


lemma distinct_keys_filter_one:
  "distinct (map fst al) \<Longrightarrow> k \<in> fst ` set al \<Longrightarrow> length (filter (\<lambda>e. fst e = k) al) = 1"
proof (induction al)
  case Nil
  then show ?case by simp
next
  case (Cons a al)
  show ?case
  proof (cases "fst a = k")
    case True
    with Cons.prems(1) have "k \<notin> fst ` set al" by auto
    then have "filter (\<lambda>e. fst e = k) al = []"
      unfolding filter_empty_conv by (metis imageI)
    with True show ?thesis by simp
  next
    case False
    with Cons show ?thesis by auto
  qed
qed

text \<open>
  C7. In every reachable state the Processing Registry holds at most one Watch Entry per
  record id (its keys are distinct); registering a watch for a record keeps them distinct
  and leaves exactly one entry for that id, the new one: an id already there keeps its
  place and is overwritten, a new id is appended.
\<close>

theorem one_watch_entry_per_record:
  assumes "reachable env cfg s"
  shows "distinct (map fst (processingFiles s)) \<and>
         (\<forall>r c.
            distinct (map fst (processingFiles (waitForProcessedFile env cfg r c s))) \<and>
            length (filter (\<lambda>e. fst e = rec_id r)
                      (processingFiles (waitForProcessedFile env cfg r c s))) = 1 \<and>
            map fst (processingFiles (waitForProcessedFile env cfg r c s))
              = (if rec_id r \<in> set (map fst (processingFiles s)) then map fst (processingFiles s)
                 else map fst (processingFiles s) @ [rec_id r]) \<and>
            map_of (processingFiles (waitForProcessedFile env cfg r c s)) (rec_id r)
              = Some \<lparr> recordId = rec_id r, numeroCtE = numero_cte r, cnpj = c,
                       processedPath = pathJoin env
                         [cnpjBasePath cfg, c, processedFolder cfg, template (numero_cte r) @ ''.xml''],
                       startTime = dateNow env (world s) \<rparr>)"
proof (intro conjI allI)
  have inv: "executor_inv s" by (rule reachable_executor_inv[OF assms])
  then show d: "distinct (map fst (processingFiles s))" by (simp add: executor_inv_def)
  fix r c
  let ?s' = "waitForProcessedFile env cfg r c s"
  show d': "distinct (map fst (processingFiles ?s'))"
    using wait_executor_inv[OF inv, of env cfg r c] by (simp add: executor_inv_def)
  have "rec_id r \<in> fst ` set (processingFiles ?s')"
    by (simp add: waitForProcessedFile_def Let_def startProcessedFileMonitoring_processingFiles
        dom_update)
  with d' show "length (filter (\<lambda>e. fst e = rec_id r) (processingFiles ?s')) = 1"
    by (rule distinct_keys_filter_one)
  show "map fst (processingFiles ?s')
          = (if rec_id r \<in> set (map fst (processingFiles s)) then map fst (processingFiles s)
             else map fst (processingFiles s) @ [rec_id r])"
    by (simp add: waitForProcessedFile_def Let_def startProcessedFileMonitoring_processingFiles
        update_keys)
  show "map_of (processingFiles ?s') (rec_id r)
          = Some \<lparr> recordId = rec_id r, numeroCtE = numero_cte r, cnpj = c,
                   processedPath = pathJoin env
                     [cnpjBasePath cfg, c, processedFolder cfg, template (numero_cte r) @ ''.xml''],
                   startTime = dateNow env (world s) \<rparr>"
    by (simp add: waitForProcessedFile_def Let_def startProcessedFileMonitoring_processingFiles
        update_conv')
qed

text \<open>
  C8. Starting the watch loop is idempotent: in every reachable state a second call of
  \<open>startProcessedFileMonitoring\<close> changes nothing, exactly one scan timer is active
  after it, and a call made while a scan timer is active leaves the state as it is.
\<close>

theorem watch_loop_start_idempotent:
  assumes "reachable env cfg s"
  shows "startProcessedFileMonitoring cfg (startProcessedFileMonitoring cfg s)
           = startProcessedFileMonitoring cfg s \<and>
         length (intervals (startProcessedFileMonitoring cfg (startProcessedFileMonitoring cfg s))) = 1 \<and>
         (intervals s \<noteq> [] \<longrightarrow> startProcessedFileMonitoring cfg s = s)"
proof -
  have inv: "executor_inv s" by (rule reachable_executor_inv[OF assms])
  then have t: "map fst (intervals s) = (case processedFileInterval s of None \<Rightarrow> [] | Some h \<Rightarrow> [h])"
    by (simp add: executor_inv_def)
  show ?thesis
  proof (cases "processedFileInterval s")
    case None
    with t show ?thesis
      by (simp add: startProcessedFileMonitoring_def setInterval_def)
  next
    case (Some h)
    with t have "length (map fst (intervals s)) = 1"
      by simp
    then have "length (intervals s) = 1"
      by simp
    with Some show ?thesis
      by (simp add: startProcessedFileMonitoring_def)
  qed
qed

lemma reachable7: "reachable sim_env default_config (snd (executeTask sim_env default_config rec7 state7))"
  unfolding state7_def by (intro reachable.executed reachable.created)

lemma rec7_id: "rec_id rec7 = 7"
  by (simp add: rec7_def)

lemma keys7: "map fst (processingFiles (snd (executeTask sim_env default_config rec7 state7))) = [7]"
  by code_simp

theorem one_watch_entry_per_record_witness:
  "distinct (map fst (processingFiles (snd (executeTask sim_env default_config rec7 state7)))) \<and>
   map fst (processingFiles (waitForProcessedFile sim_env default_config rec7 ''12345678000199''
              (snd (executeTask sim_env default_config rec7 state7)))) = [7] \<and>
   length (filter (\<lambda>e. fst e = 7)
     (processingFiles (waitForProcessedFile sim_env default_config rec7 ''12345678000199''
              (snd (executeTask sim_env default_config rec7 state7))))) = 1"
  using one_watch_entry_per_record[OF reachable7, THEN conjunct1]
    one_watch_entry_per_record[OF reachable7, THEN conjunct2, rule_format, of rec7 "''12345678000199''"]
    keys7 rec7_id
  by simp

theorem watch_loop_start_idempotent_witness:
  "intervals (startProcessedFileMonitoring default_config (startProcessedFileMonitoring default_config state7))
     = [(0, 30000)] \<and>
   startProcessedFileMonitoring default_config (startProcessedFileMonitoring default_config state7)
     = startProcessedFileMonitoring default_config state7"
proof -
  have r: "reachable sim_env default_config state7"
    unfolding state7_def by (rule reachable.created)
  have "intervals (startProcessedFileMonitoring default_config state7) = [(0, 30000)]"
    by code_simp
  with watch_loop_start_idempotent[OF r] show ?thesis by simp
qed

section \<open>The scan tick\<close>

lemma checkEntries_append:
  "checkEntries env cfg (xs @ ys) s = checkEntries env cfg ys (checkEntries env cfg xs s)"
  by (induction xs arbitrary: s) (auto)

lemma markCTEAsEmitted_trace:
  assumes "markCTEAsEmitted env k s = (res, s')"
  shows "processingFiles s' = processingFiles s \<and>
         (trace s' = trace s \<or> trace s' = trace s @ [EvMarkAsProcessed k])"
proof (cases "apiClient s")
  case None
  with assms show ?thesis by (simp add: markCTEAsEmitted_def)
next
  case (Some c)
  obtain r1 s1 where m: "markAsProcessed env k s = (r1, s1)" by (cases "markAsProcessed env k s")
  with assms Some have s': "s' = s1" by (auto simp: markCTEAsEmitted_def split: sum.splits)
  obtain r2 s2 where f: "do_fetch env (PutStatus k) (s\<lparr>trace := trace s @ [EvMarkAsProcessed k]\<rparr>) = (r2, s2)"
    by (cases "do_fetch env (PutStatus k) (s\<lparr>trace := trace s @ [EvMarkAsProcessed k]\<rparr>)")
  from m f have "s1 = s2"
    by (auto simp: markAsProcessed_def split: option.splits if_splits body.splits)
  moreover from f have "trace s2 = trace s @ [EvMarkAsProcessed k] \<and> processingFiles s2 = processingFiles s"
    by (auto simp: do_fetch_def split: prod.splits)
  ultimately show ?thesis using s' by simp
qed

lemma checkEntries_single:
  "(processingFiles (checkEntries env cfg [(k, fi)] s) = processingFiles s \<or>
    processingFiles (checkEntries env cfg [(k, fi)] s) = AList.delete k (processingFiles s)) \<and>
   (trace (checkEntries env cfg [(k, fi)] s) = trace s \<or>
    trace (checkEntries env cfg [(k, fi)] s) = trace s @ [EvMarkAsProcessed k])"
proof -
  obtain res s1 where m: "markCTEAsEmitted env k s = (res, s1)" by (cases "markCTEAsEmitted env k s")
  from markCTEAsEmitted_trace[OF m] m show ?thesis
    by (cases res) auto
qed

declare checkEntries.simps [simp del]

lemma checkEntries_Cons:
  "checkEntries env cfg (e # es) s = checkEntries env cfg es (checkEntries env cfg [e] s)"
  using checkEntries_append[of env cfg "[e]" es s] by simp

lemma checkEntries_Nil [simp]: "checkEntries env cfg [] s = s"
  by (simp add: checkEntries.simps)

lemma checkEntries_other:
  "j \<notin> fst ` set es \<Longrightarrow>
     map_of (processingFiles (checkEntries env cfg es s)) j = map_of (processingFiles s) j \<and>
     count_list (trace (checkEntries env cfg es s)) (EvMarkAsProcessed j)
       = count_list (trace s) (EvMarkAsProcessed j)"
proof (induction es arbitrary: s)
  case Nil
  then show ?case by simp
next
  case (Cons e es)
  obtain k fi where e: "e = (k, fi)" by (cases e)
  with Cons.prems have kj: "k \<noteq> j" and rest: "j \<notin> fst ` set es" by auto
  let ?s1 = "checkEntries env cfg [(k, fi)] s"
  from checkEntries_single[of env cfg k fi s] kj
  have "map_of (processingFiles ?s1) j = map_of (processingFiles s) j"
    and "count_list (trace ?s1) (EvMarkAsProcessed j) = count_list (trace s) (EvMarkAsProcessed j)"
    by (auto simp: delete_conv')
  with Cons.IH[OF rest, of ?s1] show ?case
    unfolding e checkEntries_Cons[of env cfg "(k, fi)" es s] by simp
qed

lemma checkEntries_absent:
  "j \<notin> fst ` set (processingFiles s) \<Longrightarrow>
     j \<notin> fst ` set (processingFiles (checkEntries env cfg es s))"
proof (induction es arbitrary: s)
  case Nil
  then show ?case by simp
next
  case (Cons e es)
  obtain k fi where e: "e = (k, fi)" by (cases e)
  let ?s1 = "checkEntries env cfg [(k, fi)] s"
  have "processingFiles ?s1 = processingFiles s \<or>
        processingFiles ?s1 = AList.delete k (processingFiles s)"
    using checkEntries_single[of env cfg k fi s] by blast
  then have "fst ` set (processingFiles ?s1) \<subseteq> fst ` set (processingFiles s)"
  proof
    assume "processingFiles ?s1 = processingFiles s"
    then show ?thesis by simp
  next
    assume "processingFiles ?s1 = AList.delete k (processingFiles s)"
    then show ?thesis by (simp add: dom_delete_subset)
  qed
  with Cons.prems have "j \<notin> fst ` set (processingFiles ?s1)" by blast
  from Cons.IH[OF this] show ?case
    unfolding e checkEntries_Cons[of env cfg "(k, fi)" es s] .
qed


lemma split_keys:
  assumes "distinct (map fst al)" and "al = pre @ (k, v) # post"
  shows "k \<notin> fst ` set pre" and "k \<notin> fst ` set post" and "map_of al k = Some v"
proof -
  from assms have d: "distinct (map fst pre @ k # map fst post)" by simp
  then show 1: "k \<notin> fst ` set pre" and "k \<notin> fst ` set post" by auto
  then have "map_of pre k = None" by (simp add: map_of_eq_None_iff)
  then show "map_of al k = Some v" by (simp add: assms(2) map_add_def)
qed

lemma checkProcessedFiles_split:
  assumes "processingFiles s = pre @ (k, fi) # post"
  shows "checkProcessedFiles env cfg s
           = checkEntries env cfg post
               (checkEntries env cfg [(k, fi)] (checkEntries env cfg pre s))"
proof -
  have "checkProcessedFiles env cfg s = checkEntries env cfg (pre @ [(k, fi)] @ post) s"
    using assms by (simp add: checkProcessedFiles_def)
  then show ?thesis by (simp only: checkEntries_append)
qed

text \<open>
  C9. When the scan reaches a Watch Entry whose expected artifact is absent, and the time
  since its registration exceeds \<open>processingTimeout\<close>, the tick removes the entry
  from the Processing Registry and makes no mark-complete call for its record id.
\<close>

theorem timeout_drops_entry:
  assumes d: "distinct (map fst (processingFiles s))"
    and e: "processingFiles s = pre @ (k, fi) # post"
    and absent: "\<not> fileExists env (processedPath fi) (checkEntries env cfg pre s)"
    and late: "dateNow env (world (checkEntries env cfg pre s)) - startTime fi
                 > processingTimeout cfg"
  shows "k \<notin> fst ` set (processingFiles (checkProcessedFiles env cfg s)) \<and>
         count_list (trace (checkProcessedFiles env cfg s)) (EvMarkAsProcessed k)
           = count_list (trace s) (EvMarkAsProcessed k)"
proof -
  let ?s1 = "checkEntries env cfg pre s"
  let ?s2 = "checkEntries env cfg [(k, fi)] ?s1"
  note keys = split_keys[OF d e]
  have s2: "?s2 = ?s1\<lparr>processingFiles := AList.delete k (processingFiles ?s1)\<rparr>"
    using absent late by (simp add: checkEntries.simps)
  have c1: "count_list (trace ?s1) (EvMarkAsProcessed k) = count_list (trace s) (EvMarkAsProcessed k)"
    using checkEntries_other[OF keys(1)] by blast
  have gone: "k \<notin> fst ` set (processingFiles ?s2)"
    by (subst s2) (simp add: delete_notin_dom)
  have c2: "count_list (trace ?s2) (EvMarkAsProcessed k) = count_list (trace s) (EvMarkAsProcessed k)"
    by (subst s2) (simp add: c1)
  have "k \<notin> fst ` set (processingFiles (checkEntries env cfg post ?s2))"
    by (rule checkEntries_absent[OF gone])
  moreover have "count_list (trace (checkEntries env cfg post ?s2)) (EvMarkAsProcessed k)
                   = count_list (trace s) (EvMarkAsProcessed k)"
    using checkEntries_other[OF keys(2), of env cfg ?s2] c2 by simp
  ultimately show ?thesis by (simp add: checkProcessedFiles_split[OF e])
qed

text \<open>
  C10. When the scan reaches a Watch Entry whose artifact exists and reading it fails,
  \<open>checkIfAuthorized\<close> answers false instead of throwing; the tick leaves the entry in
  the registry as it was and makes no mark-complete call for its record id.
\<close>

theorem unreadable_artifact_stays:
  assumes d: "distinct (map fst (processingFiles s))"
    and e: "processingFiles s = pre @ (k, fi) # post"
    and present: "fileExists env (processedPath fi) (checkEntries env cfg pre s)"
    and unread: "readFile env (world (checkEntries env cfg pre s)) (processedPath fi) = Inl err"
  shows "\<not> checkIfAuthorized env (processedPath fi) (checkEntries env cfg pre s) \<and>
         map_of (processingFiles (checkProcessedFiles env cfg s)) k = Some fi \<and>
         count_list (trace (checkProcessedFiles env cfg s)) (EvMarkAsProcessed k)
           = count_list (trace s) (EvMarkAsProcessed k)"
proof -
  let ?s1 = "checkEntries env cfg pre s"
  let ?s2 = "checkEntries env cfg [(k, fi)] ?s1"
  note keys = split_keys[OF d e]
  have na: "\<not> checkIfAuthorized env (processedPath fi) ?s1"
    using unread by (simp add: checkIfAuthorized_def)
  have s2: "?s2 = ?s1"
    using present na by (simp add: checkEntries.simps)
  have 1: "map_of (processingFiles ?s1) k = Some fi
           \<and> count_list (trace ?s1) (EvMarkAsProcessed k) = count_list (trace s) (EvMarkAsProcessed k)"
    using checkEntries_other[OF keys(1), of env cfg s] keys(3) by simp
  have "map_of (processingFiles (checkEntries env cfg post ?s2)) k = Some fi
        \<and> count_list (trace (checkEntries env cfg post ?s2)) (EvMarkAsProcessed k)
           = count_list (trace s) (EvMarkAsProcessed k)"
    using checkEntries_other[OF keys(2), of env cfg ?s2] 1 by (simp add: s2)
  with na show ?thesis by (simp only: checkProcessedFiles_split[OF e]) simp
qed



theorem timeout_drops_entry_witness:
  "8 \<notin> fst ` set (processingFiles (checkProcessedFiles sim_env default_config scan_state)) \<and>
   count_list (trace (checkProcessedFiles sim_env default_config scan_state)) (EvMarkAsProcessed 8) = 0"
proof -
  have d: "distinct (map fst (processingFiles scan_state))"
    by (simp add: scan_state_def)
  have e: "processingFiles scan_state = [(7, watch7)] @ (8, watch8) # [(9, watch9)]"
    by (simp add: scan_state_def)
  have a: "\<not> fileExists sim_env (processedPath watch8)
               (checkEntries sim_env default_config [(7, watch7)] scan_state)"
    by code_simp
  have l: "dateNow sim_env (world (checkEntries sim_env default_config [(7, watch7)] scan_state))
             - startTime watch8 > processingTimeout default_config"
    by code_simp
  from timeout_drops_entry[OF d e a l] show ?thesis
    by (simp add: scan_state_def)
qed

theorem unreadable_artifact_stays_witness:
  "\<not> checkIfAuthorized sim_env (processedPath watch9)
       (checkEntries sim_env default_config [(7, watch7), (8, watch8)] scan_state) \<and>
   map_of (processingFiles (checkProcessedFiles sim_env default_config scan_state)) 9 = Some watch9 \<and>
   count_list (trace (checkProcessedFiles sim_env default_config scan_state)) (EvMarkAsProcessed 9) = 0"
proof -
  have d: "distinct (map fst (processingFiles scan_state))"
    by (simp add: scan_state_def)
  have e: "processingFiles scan_state = [(7, watch7), (8, watch8)] @ (9, watch9) # []"
    by (simp add: scan_state_def)
  have p: "fileExists sim_env (processedPath watch9)
               (checkEntries sim_env default_config [(7, watch7), (8, watch8)] scan_state)"
    by code_simp
  have u: "readFile sim_env (world (checkEntries sim_env default_config [(7, watch7), (8, watch8)] scan_state))
             (processedPath watch9) = Inl (IOError (processedPath watch9))"
    by code_simp
  from unreadable_artifact_stays[OF d e p u] show ?thesis
    by (simp add: scan_state_def)
qed

section \<open>The scan tick and the store\<close>

lemma waiting7_reachable: "reachable sim_env default_config waiting7"
  unfolding waiting7_def Let_def state7_def
  by (intro reachable.world_changed reachable.executed reachable.created)

lemma checkEntries_no_client:
  "apiClient s = None \<Longrightarrow>
     apiClient (checkEntries env cfg es s) = None \<and> trace (checkEntries env cfg es s) = trace s"
proof (induction es arbitrary: s)
  case Nil
  then show ?case by simp
next
  case (Cons e es)
  obtain k fi where e: "e = (k, fi)" by (cases e)
  let ?s1 = "checkEntries env cfg [(k, fi)] s"
  have "apiClient ?s1 = None \<and> trace ?s1 = trace s"
    using Cons.prems by (simp add: checkEntries.simps markCTEAsEmitted_def)
  with Cons.IH[of ?s1] show ?case
    unfolding e checkEntries_Cons[of env cfg "(k, fi)" es s] by simp
qed

lemma scan_never_marks:
  assumes "reachable env cfg s"
  shows "trace (checkProcessedFiles env cfg s) = trace s"
proof -
  have "apiClient s = None"
    using reachable_executor_inv[OF assms] by (simp add: executor_inv_def)
  then show ?thesis
    by (simp add: checkProcessedFiles_def checkEntries_no_client)
qed

lemma scan_keeps_authorized:
  assumes "apiClient s = None"
    and "fileExists env (processedPath fi) s" and "checkIfAuthorized env (processedPath fi) s"
  shows "checkEntries env cfg [(k, fi)] s = s"
  using assms by (simp add: checkEntries.simps markCTEAsEmitted_def)

lemma scan_marks_when_client_set:
  assumes "apiClient s = Some c"
    and "fileExists env (processedPath fi) s" and "checkIfAuthorized env (processedPath fi) s"
    and "fetch env (PutStatus k) (world s) = (Some resp, w)" and "ok resp" and "json resp \<noteq> None"
  shows "checkEntries env cfg [(k, fi)] s
           = s\<lparr>world := w, trace := trace s @ [EvMarkAsProcessed k],
               processingFiles := AList.delete k (processingFiles s)\<rparr>"
  using assms
  by (auto simp: checkEntries.simps markCTEAsEmitted_def markAsProcessed_def do_fetch_def
      split: option.splits body.splits)

text \<open>
  C1, at the executor the application constructs. The Watch Entry of record 7 is
  registered, its processed artifact exists and is classified authorized; one scan tick
  makes no mark-complete call for record 7 and the entry is still in the Processing
  Registry afterwards. (\<open>markCTEAsEmitted\<close> reads \<open>this.apiClient\<close>, which is
  undefined in every reachable state, so it throws before any call and before the entry
  is deleted: \<open>scan_never_marks\<close>. Were the client set and the request answered,
  the tick would mark once and delete: \<open>scan_marks_when_client_set\<close>.)
\<close>

theorem scan_leaves_authorized_entry_unmarked:
  "map_of (processingFiles waiting7) 7 = Some watch7 \<and>
   fileExists sim_env (processedPath watch7) waiting7 \<and>
   checkIfAuthorized sim_env (processedPath watch7) waiting7 \<and>
   count_list (trace (checkProcessedFiles sim_env default_config waiting7)) (EvMarkAsProcessed 7) = 0 \<and>
   map_of (processingFiles (checkProcessedFiles sim_env default_config waiting7)) 7 = Some watch7"
  by code_simp

section \<open>Retries\<close>

lemma attempts_and_delays_append [simp]:
  "attempts_and_delays (xs @ ys) = attempts_and_delays xs @ attempts_and_delays ys"
  by (simp add: attempts_and_delays_def)

lemma attempts_and_delays_simps [simp]:
  "attempts_and_delays [] = []"
  "attempts_and_delays (EvExecuteTask i # tr) = EvExecuteTask i # attempts_and_delays tr"
  "attempts_and_delays (EvDelay ms # tr) = EvDelay ms # attempts_and_delays tr"
  "attempts_and_delays (EvMkdir d # tr) = attempts_and_delays tr"
  "attempts_and_delays (EvRename a b # tr) = attempts_and_delays tr"
  by (simp_all add: attempts_and_delays_def)

lemma moveExisting_trace:
  assumes "moveExistingXMLToCNPJFolder env cfg r c s = (res, s')"
  shows "\<exists>tr. trace s' = trace s @ tr \<and> attempts_and_delays tr = []"
proof -
  have m: "\<And>(t :: 'a state) d x t'. fs_mkdir env d t = (x, t') \<Longrightarrow> trace t' = trace t @ [EvMkdir d]"
    by (auto simp: fs_mkdir_def split: prod.splits)
  have n: "\<And>(t :: 'a state) a b x t'. fs_rename env a b t = (x, t') \<Longrightarrow> trace t' = trace t @ [EvRename a b]"
    by (auto simp: fs_rename_def split: prod.splits)
  show ?thesis
    using assms unfolding moveExistingXMLToCNPJFolder_def Let_def
    by (auto split: if_splits prod.splits option.splits dest!: m n)
qed

lemma processRecord_trace:
  assumes "processRecord env cfg r s = (res, s')"
  shows "\<exists>tr. trace s' = trace s @ tr \<and> attempts_and_delays tr = []"
  using assms unfolding processRecord_def handlePendingDocument_def waitForProcessedFile_def Let_def
  by (auto split: option.splits if_splits prod.splits sum.splits
      simp: startProcessedFileMonitoring_trace dest!: moveExisting_trace)


lemma caught_state_trace [simp]: "trace (caught_state env r s s1) = trace s1"
  by (simp add: caught_state_def)

lemma retry_state_trace [simp]:
  "trace (retry_state env cfg r s) = trace s @ [EvDelay (retryDelay cfg)]"
  by (simp add: retry_state_def delay_def)

lemma executeTask_exhausts:
  "attempts_fail (Suc (retryAttempts cfg - currentRetries r s)) env cfg r s \<Longrightarrow>
   \<exists>e s' tr.
     executeTask env cfg r s
       = (\<lparr> success = False, res_recordId = rec_id r, res_error = Some e \<rparr>, s') \<and>
     trace s' = trace s @ tr \<and>
     attempts_and_delays tr
       = EvExecuteTask (rec_id r)
         # concat (replicate (retryAttempts cfg - currentRetries r s)
                    [EvDelay (retryDelay cfg), EvExecuteTask (rec_id r)]) \<and>
     map_of (retryCounters s') (rec_id r) = None"
proof (induction s rule: executeTask_induct[where env=env and cfg=cfg and r=r])
  case (attempt s)
  let ?n = "retryAttempts cfg - currentRetries r s"
  from attempt.prems obtain e s1
    where pr: "processRecord env cfg r (attempt_state env r s) = (Some e, s1)"
      and rest: "attempts_fail ?n env cfg r (retry_state env cfg r (caught_state env r s s1))"
    by (auto split: prod.splits option.splits)
  have cur: "currentRetries r s1 = currentRetries r s"
    using processRecord_retryCounters[OF pr] by (simp add: currentRetries_def)
  obtain tr1 where tr1: "trace s1 = trace s @ EvExecuteTask (rec_id r) # tr1"
    and p1: "attempts_and_delays tr1 = []"
    using processRecord_trace[OF pr] by (auto simp: attempt_state_def)
  show ?case
  proof (cases "currentRetries r s1 < retryAttempts cfg")
    case True
    let ?s2 = "retry_state env cfg r (caught_state env r s s1)"
    have c2: "currentRetries r ?s2 = currentRetries r s + 1"
      using cur by (simp add: currentRetries_retry_state
          currentRetries_cong[of "caught_state env r s s1" s1])
    with True cur have n: "?n = Suc (retryAttempts cfg - currentRetries r ?s2)" by simp
    from rest n have "attempts_fail (Suc (retryAttempts cfg - currentRetries r ?s2)) env cfg r ?s2"
      by simp
    from attempt.IH[OF pr True this] obtain e' s' tr
      where run: "executeTask env cfg r ?s2
                    = (\<lparr> success = False, res_recordId = rec_id r, res_error = Some e' \<rparr>, s')"
        and t: "trace s' = trace ?s2 @ tr"
        and p: "attempts_and_delays tr
                  = EvExecuteTask (rec_id r)
                    # concat (replicate (retryAttempts cfg - currentRetries r ?s2)
                               [EvDelay (retryDelay cfg), EvExecuteTask (rec_id r)])"
        and c: "map_of (retryCounters s') (rec_id r) = None"
      by blast
    have 1: "executeTask env cfg r s
               = (\<lparr> success = False, res_recordId = rec_id r, res_error = Some e' \<rparr>, s')"
      using pr True run by (subst executeTask_unfold) simp
    have 2: "trace s' = trace s @ (EvExecuteTask (rec_id r) # tr1 @ EvDelay (retryDelay cfg) # tr)"
      using t tr1 by simp
    have 3: "attempts_and_delays (EvExecuteTask (rec_id r) # tr1 @ EvDelay (retryDelay cfg) # tr)
               = EvExecuteTask (rec_id r)
                 # concat (replicate ?n [EvDelay (retryDelay cfg), EvExecuteTask (rec_id r)])"
      using p p1 by (simp add: n)
    from 1 2 3 c show ?thesis by blast
  next
    case False
    with cur have n: "?n = 0" by simp
    let ?s' = "(caught_state env r s s1)\<lparr>retryCounters := AList.delete (rec_id r) (retryCounters s1)\<rparr>"
    have 1: "executeTask env cfg r s
               = (\<lparr> success = False, res_recordId = rec_id r, res_error = Some e \<rparr>, ?s')"
      using pr False by (subst executeTask_unfold) simp
    have 2: "trace ?s' = trace s @ (EvExecuteTask (rec_id r) # tr1)"
      using tr1 by simp
    have 3: "attempts_and_delays (EvExecuteTask (rec_id r) # tr1)
               = EvExecuteTask (rec_id r)
                 # concat (replicate ?n [EvDelay (retryDelay cfg), EvExecuteTask (rec_id r)])"
      using p1 by (simp add: n)
    have 4: "map_of (retryCounters ?s') (rec_id r) = None"
      by (simp add: delete_conv')
    from 1 2 3 4 show ?thesis by blast
  qed
qed


lemma count_attempts_and_delays:
  "count_list (attempts_and_delays tr) (EvExecuteTask i) = count_list tr (EvExecuteTask i)"
  by (induction tr) (auto simp: attempts_and_delays_def split: event.splits)

lemma count_retry_pattern:
  "count_list (concat (replicate n [EvDelay d, EvExecuteTask i])) (EvExecuteTask i) = n"
  by (induction n) simp_all

text \<open>
  C3, amended. If the record's retry count is zero when \<open>executeTask\<close> is called and
  every attempt fails, then \<open>executeTask\<close> returns \<open>success: false\<close> after exactly
  \<open>retryAttempts + 1\<close> attempts (the first and \<open>retryAttempts\<close> retries), with one
  \<open>retryDelay\<close> wait between consecutive attempts.
\<close>

theorem retry_bound:
  assumes "currentRetries r s = 0" and "attempts_fail (retryAttempts cfg + 1) env cfg r s"
  shows "\<exists>e s' tr.
           executeTask env cfg r s
             = (\<lparr> success = False, res_recordId = rec_id r, res_error = Some e \<rparr>, s') \<and>
           trace s' = trace s @ tr \<and>
           attempts_and_delays tr
             = EvExecuteTask (rec_id r)
               # concat (replicate (retryAttempts cfg)
                          [EvDelay (retryDelay cfg), EvExecuteTask (rec_id r)]) \<and>
           count_list tr (EvExecuteTask (rec_id r)) = retryAttempts cfg + 1"
proof -
  from assms have "attempts_fail (Suc (retryAttempts cfg - currentRetries r s)) env cfg r s"
    by simp
  from executeTask_exhausts[OF this] assms(1) obtain e s' tr
    where 1: "executeTask env cfg r s
               = (\<lparr> success = False, res_recordId = rec_id r, res_error = Some e \<rparr>, s')"
      and 2: "trace s' = trace s @ tr"
      and 3: "attempts_and_delays tr
               = EvExecuteTask (rec_id r)
                 # concat (replicate (retryAttempts cfg)
                            [EvDelay (retryDelay cfg), EvExecuteTask (rec_id r)])"
    by auto
  have "count_list tr (EvExecuteTask (rec_id r))
          = count_list (attempts_and_delays tr) (EvExecuteTask (rec_id r))"
    by (simp add: count_attempts_and_delays)
  also have "\<dots> = retryAttempts cfg + 1"
    by (simp add: 3 count_retry_pattern)
  finally show ?thesis using 1 2 3 by blast
qed

theorem retry_bound_witness:
  "currentRetries rec7 fresh_state = 0 \<and>
   attempts_fail (retryAttempts default_config + 1) sim_env default_config rec7 fresh_state \<and>
   (\<exists>e s' tr.
      executeTask sim_env default_config rec7 fresh_state
        = (\<lparr> success = False, res_recordId = 7, res_error = Some e \<rparr>, s') \<and>
      trace s' = trace fresh_state @ tr \<and>
      attempts_and_delays tr
        = [EvExecuteTask 7, EvDelay 2000, EvExecuteTask 7, EvDelay 2000, EvExecuteTask 7,
           EvDelay 2000, EvExecuteTask 7] \<and>
      count_list tr (EvExecuteTask 7) = 4)"
proof -
  have a: "currentRetries rec7 fresh_state = 0" by code_simp
  have b: "attempts_fail (retryAttempts default_config + 1) sim_env default_config rec7 fresh_state"
    by code_simp
  have n: "retryAttempts default_config = 3" "retryDelay default_config = 2000" "rec_id rec7 = 7"
    by (simp_all add: default_config_def rec7_def)
  have "concat (replicate 3 [EvDelay 2000, EvExecuteTask 7])
          = [EvDelay 2000, EvExecuteTask 7, EvDelay 2000, EvExecuteTask 7,
             EvDelay 2000, EvExecuteTask 7]"
    by (simp add: numeral_3_eq_3)
  with retry_bound[OF a b] a b show ?thesis by (simp add: n)
qed

text \<open>
  C3 as stated fails: with \<open>retryAttempts = 3\<close> and the XML of record 7 missing at
  every attempt, \<open>executeTask\<close> makes four attempts before it returns the failure.
\<close>

theorem retry_bound_counterexample:
  "attempts_fail 4 sim_env default_config rec7 fresh_state \<and>
   \<not> success (fst (executeTask sim_env default_config rec7 fresh_state)) \<and>
   count_list (trace (snd (executeTask sim_env default_config rec7 fresh_state))) (EvExecuteTask 7) = 4 \<and>
   retryAttempts default_config = 3"
  by code_simp

text \<open>
  C4, at a run that fails once and then succeeds. Record 7 has no retry count; its XML is
  missing at the first attempt and there at the second; \<open>executeTask\<close> returns success
  and the retry count of record 7 is still 1. (On exhaustion the counter is deleted:
  \<open>executeTask_exhausts\<close>.)
\<close>

theorem retry_counter_survives_success:
  "map_of (retryCounters late_state) 7 = None \<and>
   success (fst (executeTask sim_env default_config rec7 late_state)) \<and>
   map_of (retryCounters (snd (executeTask sim_env default_config rec7 late_state))) 7 = Some 1"
  by code_simp

text \<open>
  The count left behind is read by the next run for the same record: run again after that
  success (the XML has left the source folder, so every attempt fails), \<open>executeTask\<close>
  makes three attempts where a run from a clean counter makes four.
\<close>

lemma leftover_count_shortens_next_run:
  "attempts_and_delays
     (drop (length (trace (snd (executeTask sim_env default_config rec7 late_state))))
        (trace (snd (executeTask sim_env default_config rec7
                       (snd (executeTask sim_env default_config rec7 late_state))))))
   = [EvExecuteTask 7, EvDelay 2000, EvExecuteTask 7, EvDelay 2000, EvExecuteTask 7]"
  by code_simp

text \<open>
  C2 as stated fails: for a record whose key is malformed, \<open>executeTask\<close> makes four
  attempts with three delays of 2000 ms before it returns the failure.
\<close>

theorem malformed_key_counterexample:
  "extractCNPJFromChaveAcesso (numero_cte rec2) = None \<and>
   \<not> success (fst (executeTask sim_env default_config rec2 fresh_state)) \<and>
   count_list (trace (snd (executeTask sim_env default_config rec2 fresh_state))) (EvExecuteTask 2) = 4 \<and>
   count_list (trace (snd (executeTask sim_env default_config rec2 fresh_state))) (EvDelay 2000) = 3"
  by code_simp


lemma extract_malformed:
  assumes "length key \<noteq> 44 \<or> \<not> list_all is_digit (take 14 (drop 6 key))"
  shows "extractCNPJFromChaveAcesso (Some key) = None"
  using assms
  by (auto simp: extractCNPJFromChaveAcesso_def substring_def fourteen_digits_def)

text \<open>
  C2, amended. For a record whose key is malformed (not exactly 44 characters, or the
  characters at offset 6, length 14, not all digits) every attempt fails at the key check,
  before any file system call or watch registration, and the failure is retried like any
  other: with \<open>c\<close> the record's retry count at the call, \<open>executeTask\<close> makes
  \<open>retryAttempts - c\<close> further attempts, each after a \<open>retryDelay\<close> wait, then
  returns the failure result and deletes the counter.
\<close>

theorem malformed_key_is_retried:
  assumes k: "numero_cte r = Some key"
    and bad: "length key \<noteq> 44 \<or> \<not> list_all is_digit (take 14 (drop 6 key))"
  shows "\<exists>s'.
           executeTask env cfg r s
             = (\<lparr> success = False, res_recordId = rec_id r,
                  res_error = Some (CnpjNotExtracted (Some key)) \<rparr>, s') \<and>
           trace s' = trace s @
             EvExecuteTask (rec_id r)
             # concat (replicate (retryAttempts cfg - currentRetries r s)
                        [EvDelay (retryDelay cfg), EvExecuteTask (rec_id r)]) \<and>
           processingFiles s' = processingFiles s \<and>
           map_of (retryCounters s') (rec_id r) = None"
proof (induction s rule: executeTask_induct[where env=env and cfg=cfg and r=r])
  case (attempt s)
  let ?n = "retryAttempts cfg - currentRetries r s"
  let ?s1 = "attempt_state env r s"
  have pr: "processRecord env cfg r ?s1 = (Some (CnpjNotExtracted (Some key)), ?s1)"
    using extract_malformed[OF bad] k by (simp add: processRecord_def)
  have cur: "currentRetries r ?s1 = currentRetries r s"
    by (simp add: currentRetries_def)
  show ?case
  proof (cases "currentRetries r ?s1 < retryAttempts cfg")
    case True
    let ?s2 = "retry_state env cfg r (caught_state env r s ?s1)"
    have c2: "currentRetries r ?s2 = currentRetries r s + 1"
      by (simp add: currentRetries_retry_state
          currentRetries_cong[of "caught_state env r s ?s1" s])
    with True cur have n: "?n = Suc (retryAttempts cfg - currentRetries r ?s2)" by simp
    from attempt.IH[OF pr True] obtain s'
      where run: "executeTask env cfg r ?s2
                    = (\<lparr> success = False, res_recordId = rec_id r,
                         res_error = Some (CnpjNotExtracted (Some key)) \<rparr>, s')"
        and t: "trace s' = trace ?s2 @
                  EvExecuteTask (rec_id r)
                  # concat (replicate (retryAttempts cfg - currentRetries r ?s2)
                             [EvDelay (retryDelay cfg), EvExecuteTask (rec_id r)])"
        and f: "processingFiles s' = processingFiles ?s2"
        and c: "map_of (retryCounters s') (rec_id r) = None"
      by blast
    have 1: "executeTask env cfg r s
               = (\<lparr> success = False, res_recordId = rec_id r,
                    res_error = Some (CnpjNotExtracted (Some key)) \<rparr>, s')"
      using pr True run by (subst executeTask_unfold) simp
    have 2: "trace s' = trace s @
               EvExecuteTask (rec_id r)
               # concat (replicate ?n [EvDelay (retryDelay cfg), EvExecuteTask (rec_id r)])"
      using t by (simp add: n attempt_state_def)
    have 3: "processingFiles s' = processingFiles s"
      using f by (simp add: retry_state_def delay_def caught_state_def attempt_state_def)
    from 1 2 3 c show ?thesis by blast
  next
    case False
    with cur have n: "?n = 0" by simp
    let ?s' = "(caught_state env r s ?s1)\<lparr>retryCounters := AList.delete (rec_id r) (retryCounters ?s1)\<rparr>"
    have 1: "executeTask env cfg r s
               = (\<lparr> success = False, res_recordId = rec_id r,
                    res_error = Some (CnpjNotExtracted (Some key)) \<rparr>, ?s')"
      using pr False by (subst executeTask_unfold) simp
    have 2: "trace ?s' = trace s @
               EvExecuteTask (rec_id r)
               # concat (replicate ?n [EvDelay (retryDelay cfg), EvExecuteTask (rec_id r)])"
      by (simp add: n attempt_state_def)
    have 3: "processingFiles ?s' = processingFiles s"
      by (simp add: caught_state_def attempt_state_def)
    have 4: "map_of (retryCounters ?s') (rec_id r) = None"
      by (simp add: delete_conv')
    from 1 2 3 4 show ?thesis by blast
  qed
qed

theorem malformed_key_is_retried_witness:
  "length ''352506ABCDEFGH000199570010000001231000001234'' = 44 \<and>
   \<not> list_all is_digit (take 14 (drop 6 ''352506ABCDEFGH000199570010000001231000001234'')) \<and>
   (\<exists>s'. executeTask sim_env default_config rec2 fresh_state
            = (\<lparr> success = False, res_recordId = 2,
                 res_error = Some (CnpjNotExtracted
                    (Some ''352506ABCDEFGH000199570010000001231000001234'')) \<rparr>, s') \<and>
          trace s' = trace fresh_state @
            [EvExecuteTask 2, EvDelay 2000, EvExecuteTask 2, EvDelay 2000, EvExecuteTask 2,
             EvDelay 2000, EvExecuteTask 2] \<and>
          processingFiles s' = processingFiles fresh_state \<and>
          map_of (retryCounters s') 2 = None)"
proof -
  have k: "numero_cte rec2 = Some ''352506ABCDEFGH000199570010000001231000001234''"
    by (simp add: rec2_def)
  have nd: "\<not> list_all is_digit (take 14 (drop 6 ''352506ABCDEFGH000199570010000001231000001234''))"
    by (simp add: is_digit_def)
  then have bad: "length ''352506ABCDEFGH000199570010000001231000001234'' \<noteq> 44
      \<or> \<not> list_all is_digit (take 14 (drop 6 ''352506ABCDEFGH000199570010000001231000001234''))"
    by (rule disjI2)
  have c: "currentRetries rec2 fresh_state = 0" by code_simp
  have n: "retryAttempts default_config = 3" "retryDelay default_config = 2000" "rec_id rec2 = 2"
    by (simp_all add: default_config_def rec2_def)
  have "concat (replicate 3 [EvDelay 2000, EvExecuteTask 2])
          = [EvDelay 2000, EvExecuteTask 2, EvDelay 2000, EvExecuteTask 2,
             EvDelay 2000, EvExecuteTask 2]"
    by (simp add: numeral_3_eq_3)
  with malformed_key_is_retried[OF k bad, of sim_env default_config fresh_state] nd c
  show ?thesis by (simp add: n)
qed

section \<open>The scheduler tick\<close>

lemma processRecord_calls_append [simp]:
  "processRecord_calls (xs @ ys) = processRecord_calls xs @ processRecord_calls ys"
  by (induction xs rule: processRecord_calls.induct) simp_all

lemma task_results_append [simp]:
  "task_results (xs @ ys) = task_results xs @ task_results ys"
  by (induction xs rule: task_results.induct) simp_all

lemma executor_events_project:
  "list_all executor_event tr \<Longrightarrow> processRecord_calls tr = [] \<and> task_results tr = []"
  by (induction tr) (auto simp: executor_event_def split: event.splits)

lemma executor_step_refl: "executor_step s s"
  by (simp add: executor_step_def)

lemma executor_step_trans:
  "executor_step s s1 \<Longrightarrow> executor_step s1 s2 \<Longrightarrow> executor_step s s2"
  unfolding executor_step_def by (elim conjE exE, rename_tac tr tr') (rule conjI, rule_tac x="tr @ tr'" in exI, simp_all)

lemma fs_mkdir_executor_step: "fs_mkdir env d s = (x, s') \<Longrightarrow> executor_step s s'"
  by (auto simp: fs_mkdir_def executor_step_def executor_event_def split: prod.splits)

lemma fs_rename_executor_step: "fs_rename env a b s = (x, s') \<Longrightarrow> executor_step s s'"
  by (auto simp: fs_rename_def executor_step_def executor_event_def split: prod.splits)

lemma moveExisting_executor_step:
  "moveExistingXMLToCNPJFolder env cfg r c s = (res, s') \<Longrightarrow> executor_step s s'"
  unfolding moveExistingXMLToCNPJFolder_def Let_def
  by (auto split: if_splits prod.splits option.splits
      intro: executor_step_refl executor_step_trans
      dest!: fs_mkdir_executor_step fs_rename_executor_step)

lemma wait_executor_step: "executor_step s (waitForProcessedFile env cfg r c s)"
  by (simp add: executor_step_def waitForProcessedFile_def Let_def
      startProcessedFileMonitoring_def setInterval_def split: option.splits)

lemma processRecord_executor_step:
  "processRecord env cfg r s = (res, s') \<Longrightarrow> executor_step s s'"
  unfolding processRecord_def handlePendingDocument_def
  by (auto split: option.splits if_splits prod.splits sum.splits
      intro: executor_step_refl executor_step_trans[OF _ wait_executor_step]
      dest!: moveExisting_executor_step)

lemma executeTask_executor_step: "executor_step s (snd (executeTask env cfg r s))"
proof -
  have "executor_step s s \<Longrightarrow> executor_step s (snd (executeTask env cfg r s))"
  proof (rule executeTask_preserves[where Inv="executor_step s"])
    show "\<And>t res t'. executor_step s t \<Longrightarrow> processRecord env cfg r t = (res, t') \<Longrightarrow> executor_step s t'"
      by (blast intro: executor_step_trans processRecord_executor_step)
  qed (auto simp: executor_step_def delay_def executor_event_def)
  then show ?thesis by (simp add: executor_step_refl)
qed


lemma markAsProcessed_effect:
  assumes "markAsProcessed env i s = (res, s')"
  shows "trace s' = trace s @ [EvMarkAsProcessed i] \<and> processedCount s' = processedCount s"
proof -
  obtain r2 s2 where f: "do_fetch env (PutStatus i) (s\<lparr>trace := trace s @ [EvMarkAsProcessed i]\<rparr>) = (r2, s2)"
    by (cases "do_fetch env (PutStatus i) (s\<lparr>trace := trace s @ [EvMarkAsProcessed i]\<rparr>)")
  from assms f have "s' = s2"
    by (auto simp: markAsProcessed_def split: option.splits if_splits body.splits)
  moreover from f have "trace s2 = trace s @ [EvMarkAsProcessed i] \<and> processedCount s2 = processedCount s"
    by (auto simp: do_fetch_def split: prod.splits)
  ultimately show ?thesis by simp
qed

lemma monitor_processRecord_effect:
  "\<exists>tr. trace (DatabaseMonitor_processRecord env cfg r s) = trace s @ tr \<and>
        processRecord_calls tr = [rec_id r] \<and>
        task_results tr
          = [(rec_id r,
              success (fst (executeTask env cfg r
                              (s\<lparr>trace := trace s @ [EvProcessRecord (rec_id r)]\<rparr>))))] \<and>
        (processedCount (DatabaseMonitor_processRecord env cfg r s) = processedCount s \<or>
         success (fst (executeTask env cfg r
                         (s\<lparr>trace := trace s @ [EvProcessRecord (rec_id r)]\<rparr>))) \<and>
         processedCount (DatabaseMonitor_processRecord env cfg r s) = processedCount s + 1)"
proof -
  let ?s0 = "s\<lparr>trace := trace s @ [EvProcessRecord (rec_id r)]\<rparr>"
  obtain res s1 where e: "executeTask env cfg r ?s0 = (res, s1)"
    by (cases "executeTask env cfg r ?s0")
  from executeTask_executor_step[of ?s0 env cfg r] e obtain tr1
    where t1: "trace s1 = trace s @ EvProcessRecord (rec_id r) # tr1"
      and ev: "list_all executor_event tr1" and c1: "processedCount s1 = processedCount s"
    by (auto simp: executor_step_def)
  note pj = executor_events_project[OF ev]
  let ?s2 = "s1\<lparr>trace := trace s1 @ [EvTaskResult (rec_id r) (success res)]\<rparr>"
  show ?thesis
  proof (cases "success res")
    case False
    with e have d: "DatabaseMonitor_processRecord env cfg r s = ?s2"
      by (simp add: DatabaseMonitor_processRecord_def Let_def)
    have "trace ?s2 = trace s @ (EvProcessRecord (rec_id r) # tr1 @ [EvTaskResult (rec_id r) (success res)])"
      using t1 by simp
    moreover have "processRecord_calls (EvProcessRecord (rec_id r) # tr1 @ [EvTaskResult (rec_id r) (success res)]) = [rec_id r]"
      using pj by simp
    moreover have "task_results (EvProcessRecord (rec_id r) # tr1 @ [EvTaskResult (rec_id r) (success res)])
                     = [(rec_id r, success res)]"
      using pj by simp
    moreover have "processedCount ?s2 = processedCount s" using c1 by simp
    ultimately show ?thesis unfolding d using e by (metis fst_conv)
  next
    case True
    obtain m s3 where m: "markAsProcessed env (rec_id r) ?s2 = (m, s3)"
      by (cases "markAsProcessed env (rec_id r) ?s2")
    note me = markAsProcessed_effect[OF m]
    let ?tr = "EvProcessRecord (rec_id r) # tr1 @ [EvTaskResult (rec_id r) (success res), EvMarkAsProcessed (rec_id r)]"
    have t3: "trace s3 = trace s @ ?tr" using me t1 by simp
    have p: "processRecord_calls ?tr = [rec_id r]" using pj by simp
    have q: "task_results ?tr = [(rec_id r, success res)]" using pj by simp
    have c3: "processedCount s3 = processedCount s" using me c1 by simp
    show ?thesis
    proof (cases m)
      case (Inl err)
      with e m True have d: "DatabaseMonitor_processRecord env cfg r s = s3"
        by (simp add: DatabaseMonitor_processRecord_def Let_def)
      show ?thesis unfolding d using t3 p q c3 e by (metis fst_conv)
    next
      case (Inr v)
      with e m True have d: "DatabaseMonitor_processRecord env cfg r s
                               = s3\<lparr>processedCount := processedCount s3 + 1\<rparr>"
        by (simp add: DatabaseMonitor_processRecord_def Let_def)
      have "trace (s3\<lparr>processedCount := processedCount s3 + 1\<rparr>) = trace s @ ?tr"
        using t3 by simp
      moreover have "processedCount (s3\<lparr>processedCount := processedCount s3 + 1\<rparr>) = processedCount s + 1"
        using c3 by simp
      ultimately show ?thesis unfolding d using p q e True by (metis fst_conv)
    qed
  qed
qed

lemma processRecords_effect:
  "\<exists>tr. trace (processRecords env cfg rs s) = trace s @ tr \<and>
        processRecord_calls tr = map rec_id rs \<and>
        map fst (task_results tr) = map rec_id rs \<and>
        processedCount s \<le> processedCount (processRecords env cfg rs s) \<and>
        processedCount (processRecords env cfg rs s)
          \<le> processedCount s + length (filter snd (task_results tr))"
proof (induction rs arbitrary: s)
  case Nil
  show ?case by simp
next
  case (Cons r rs)
  let ?s1 = "DatabaseMonitor_processRecord env cfg r s"
  from monitor_processRecord_effect[of env cfg r s] obtain tr1 b
    where a: "trace ?s1 = trace s @ tr1" "processRecord_calls tr1 = [rec_id r]"
      "task_results tr1 = [(rec_id r, b)]"
      "processedCount ?s1 = processedCount s \<or> b \<and> processedCount ?s1 = processedCount s + 1"
    by blast
  from Cons.IH[of ?s1] obtain tr2
    where b: "trace (processRecords env cfg rs ?s1) = trace ?s1 @ tr2"
      "processRecord_calls tr2 = map rec_id rs" "map fst (task_results tr2) = map rec_id rs"
      "processedCount ?s1 \<le> processedCount (processRecords env cfg rs ?s1)"
      "processedCount (processRecords env cfg rs ?s1)
         \<le> processedCount ?s1 + length (filter snd (task_results tr2))"
    by blast
  have "trace (processRecords env cfg (r # rs) s) = trace s @ (tr1 @ tr2)"
    using a(1) b(1) by simp
  moreover have "processRecord_calls (tr1 @ tr2) = map rec_id (r # rs)"
    using a(2) b(2) by simp
  moreover have "map fst (task_results (tr1 @ tr2)) = map rec_id (r # rs)"
    using a(3) b(3) by simp
  moreover have "processedCount s \<le> processedCount (processRecords env cfg (r # rs) s)"
    using a(4) b(4) by auto
  moreover have "processedCount (processRecords env cfg (r # rs) s)
                   \<le> processedCount s + length (filter snd (task_results (tr1 @ tr2)))"
    using a(3,4) b(5) by auto
  ultimately show ?case by blast
qed





text \<open>
  C5. In a tick whose fetch returns \<open>records\<close>, \<open>processRecord\<close> is called once for
  every fetched record, in order, and each call gets its \<open>executeTask\<close> result back,
  whatever the results of the records before it; the processed counter never decreases
  and rises by at most the number of results that report success; and a single
  \<open>processRecord\<close> call leaves the counter as it is unless the record's
  \<open>executeTask\<close> result reports success, in which case it may add one.
\<close>

theorem failure_does_not_abort_batch:
  assumes "getRecordsToProcess env (s\<lparr>lastCheck := Some (dateNow env (world s))\<rparr>)
             = (Inr records, s1)"
  shows "(\<exists>tr. trace (checkDatabase env cfg s) = trace s @ tr \<and>
               processRecord_calls tr = map rec_id records \<and>
               map fst (task_results tr) = map rec_id records \<and>
               processedCount s \<le> processedCount (checkDatabase env cfg s) \<and>
               processedCount (checkDatabase env cfg s)
                 \<le> processedCount s + length (filter snd (task_results tr))) \<and>
         (\<forall>r t. processedCount (DatabaseMonitor_processRecord env cfg r t) = processedCount t \<or>
                success (fst (executeTask env cfg r
                                (t\<lparr>trace := trace t @ [EvProcessRecord (rec_id r)]\<rparr>))) \<and>
                processedCount (DatabaseMonitor_processRecord env cfg r t) = processedCount t + 1)"
proof (intro conjI allI)
  have fr: "trace s1 = trace s \<and> processedCount s1 = processedCount s"
    using getRecordsToProcess_client[OF assms] by (auto simp: client_step_def)
  have cd: "checkDatabase env cfg s = processRecords env cfg records s1"
    using assms by (cases records) (simp_all add: checkDatabase_def)
  from processRecords_effect[of env cfg records s1] fr
  show "\<exists>tr. trace (checkDatabase env cfg s) = trace s @ tr \<and>
               processRecord_calls tr = map rec_id records \<and>
               map fst (task_results tr) = map rec_id records \<and>
               processedCount s \<le> processedCount (checkDatabase env cfg s) \<and>
               processedCount (checkDatabase env cfg s)
                 \<le> processedCount s + length (filter snd (task_results tr))"
    unfolding cd by simp
next
  fix r and t :: "'a state"
  from monitor_processRecord_effect[of env cfg r t]
  show "processedCount (DatabaseMonitor_processRecord env cfg r t) = processedCount t \<or>
        success (fst (executeTask env cfg r
                        (t\<lparr>trace := trace t @ [EvProcessRecord (rec_id r)]\<rparr>))) \<and>
        processedCount (DatabaseMonitor_processRecord env cfg r t) = processedCount t + 1"
    by blast
qed




lemma batch_fetch:
  "fst (getRecordsToProcess sim_env
          (batch_state\<lparr>lastCheck := Some (dateNow sim_env (world batch_state))\<rparr>))
     = Inr [rec7, rec2, rec9]"
  by (simp add: getRecordsToProcess_def batch_state_def TaskExecutor_new_def setupDirectories_def
      fs_mkdir_def sim_env_def connect_def testConnection_def do_fetch_def sim_fetch_def
      setupTable_def empty_world_def)


theorem failure_does_not_abort_batch_witness:
  "fst (getRecordsToProcess sim_env
          (batch_state\<lparr>lastCheck := Some (dateNow sim_env (world batch_state))\<rparr>))
     = Inr [rec7, rec2, rec9] \<and>
   (\<exists>tr. trace (checkDatabase sim_env default_config batch_state) = trace batch_state @ tr \<and>
         processRecord_calls tr = [7, 2, 9] \<and>
         map fst (task_results tr) = [7, 2, 9] \<and>
         processedCount batch_state \<le> processedCount (checkDatabase sim_env default_config batch_state) \<and>
         processedCount (checkDatabase sim_env default_config batch_state)
           \<le> processedCount batch_state + length (filter snd (task_results tr)))"
proof -
  have f: "getRecordsToProcess sim_env
             (batch_state\<lparr>lastCheck := Some (dateNow sim_env (world batch_state))\<rparr>)
           = (Inr [rec7, rec2, rec9],
              snd (getRecordsToProcess sim_env
                     (batch_state\<lparr>lastCheck := Some (dateNow sim_env (world batch_state))\<rparr>)))"
    by (rule prod_eqI) (simp_all only: fst_conv snd_conv batch_fetch)
  have i: "map rec_id [rec7, rec2, rec9] = [7, 2, 9]"
    by (simp add: rec7_def rec2_def rec9_def)
  show ?thesis
    using failure_does_not_abort_batch[OF f, of default_config, THEN conjunct1] batch_fetch
    unfolding i by (rule conjI[rotated])
qed

end
